theory Spec2Isabelle
  imports Complex_Main
begin

section \<open>JavaScript values\<close>

text \<open>
  A JavaScript number is modelled as a real; the values NaN and Infinity do not belong to
  the model. In the coordinate conversions and comparisons the arithmetic is exact. In the
  matrix functions (\<open>multiply\<close>, \<open>multiplyVector\<close>, \<open>gaussJordan\<close>), whose answer
  depends on rounding through the pivot test, every arithmetic operation is followed by
  the rounding given as the parameter \<open>rnd\<close>: the program is the instance
  \<open>roundToDouble\<close>, and \<open>exact\<close> is the same code without rounding.

  Where the source tells \<open>undefined\<close> from \<open>null\<close> (the tests \<open>x !== undefined\<close> on
  pixel coordinates), a property is a \<open>jsNumber\<close>; arithmetic reads \<open>null\<close> as 0
  (\<open>toNumber\<close>), and it is never reached with \<open>undefined\<close>. Where the source tests for
  truthiness, \<open>undefined\<close> and \<open>null\<close> behave alike and a property that is absent,
  \<open>undefined\<close> or \<open>null\<close> is \<open>None\<close>. Strings are byte lists. The truthiness tests
  of the source (\<open>!x\<close>, \<open>x && y\<close>, \<open>x || y\<close>) are written out: a number is truthy
  when it is present and not zero, a string when it is present and not empty, an object or
  an array whenever it is present.
\<close>

datatype jsNumber = Undefined | Null | Num real

definition toNumber :: "jsNumber \<Rightarrow> real" where
  "toNumber v = (case v of Num x \<Rightarrow> x | Null \<Rightarrow> 0 | Undefined \<Rightarrow> undefined)"

definition truthyNum :: "real option \<Rightarrow> bool" where
  "truthyNum v = (case v of None \<Rightarrow> False | Some x \<Rightarrow> x \<noteq> 0)"

definition truthyStr :: "string option \<Rightarrow> bool" where
  "truthyStr v = (case v of None \<Rightarrow> False | Some s \<Rightarrow> s \<noteq> [])"

definition orStr :: "string option \<Rightarrow> string option \<Rightarrow> string option" where
  "orStr a b = (if truthyStr a then a else b)"

definition orNum :: "real option \<Rightarrow> real option \<Rightarrow> real option" where
  "orNum a b = (if truthyNum a then a else b)"

record latlng =
  lat :: real
  lng :: real

section \<open>Double arithmetic\<close>

text \<open>
  The operations \<open>+\<close>, \<open>-\<close>, \<open>*\<close> and \<open>/\<close> on doubles return the exact result
  rounded to the nearest double, ties to the even significand (IEEE 754, binary64).
  \<open>roundToDouble\<close> is that rounding: the magnitude is scaled by a power of two into
  \<open>[2^52, 2^53)\<close>, or as far as the smallest exponent \<open>-1074\<close> allows, rounded to
  an integer, and scaled back. The scaling goes through the shifts 1024, 512, .., 1, taking
  each shift that does not overshoot. A result of magnitude \<open>2^1024\<close> or more is
  Infinity in the program and outside the model.
\<close>

type_synonym rounding = "real \<Rightarrow> real"

definition roundHalfEven :: "real \<Rightarrow> int" where
  "roundHalfEven x =
     (let f = \<lfloor>x\<rfloor>
      in if x - of_int f < 1 / 2 then f
         else if 1 / 2 < x - of_int f then f + 1
         else if even f then f else f + 1)"

definition scaleUp :: "real \<times> real \<Rightarrow> nat \<Rightarrow> real \<times> real" where
  "scaleUp ms k =
     (if fst ms * 2 ^ k < 2 ^ 53 \<and> 2 ^ k \<le> snd ms * 2 ^ 1074
      then (fst ms * 2 ^ k, snd ms / 2 ^ k) else ms)"

definition scaleDown :: "real \<times> real \<Rightarrow> nat \<Rightarrow> real \<times> real" where
  "scaleDown ms k =
     (if 2 ^ 52 \<le> fst ms / 2 ^ k then (fst ms / 2 ^ k, snd ms * 2 ^ k) else ms)"

definition binaryShifts :: "nat list" where
  "binaryShifts = [1024, 512, 256, 128, 64, 32, 16, 8, 4, 2, 1]"

definition roundToDouble :: rounding where
  "roundToDouble x =
     (if x = 0 then 0
      else
        let ms = foldl scaleDown (foldl scaleUp (\<bar>x\<bar>, 1) binaryShifts) binaryShifts
        in sgn x * of_int (roundHalfEven (fst ms)) * snd ms)"

definition exact :: rounding where
  "exact x = x"

text \<open>
  For a magnitude between \<open>2^-64\<close> and \<open>2^64\<close> the scaling takes none of the shifts
  above 64 and never meets the smallest exponent. \<open>roundModerate\<close> is the rounding with
  the remaining steps only; it is what the examples are evaluated with, once it is proved
  to agree with \<open>roundToDouble\<close> on that range.
\<close>

definition scaleUpFree :: "real \<times> real \<Rightarrow> nat \<Rightarrow> real \<times> real" where
  "scaleUpFree ms k =
     (if fst ms * 2 ^ k < 2 ^ 53 then (fst ms * 2 ^ k, snd ms / 2 ^ k) else ms)"

definition shortShifts :: "nat list" where
  "shortShifts = [64, 32, 16, 8, 4, 2, 1]"

definition roundModerate :: rounding where
  "roundModerate x =
     (if x = 0 then 0
      else
        let ms = foldl scaleDown (foldl scaleUpFree (\<bar>x\<bar>, 1) shortShifts) shortShifts
        in sgn x * of_int (roundHalfEven (fst ms)) * snd ms)"

section \<open>Coordinate math (math-utils.js)\<close>

definition WEB_MERCATOR_MAX :: real where
  "WEB_MERCATOR_MAX = 20037508.34"

definition EARTH_RADIUS :: real where
  "EARTH_RADIUS = 6378137"

definition lonToWebMercatorX :: "real \<Rightarrow> real" where
  "lonToWebMercatorX lon = lon * WEB_MERCATOR_MAX / 180"

definition latToWebMercatorY :: "real \<Rightarrow> real" where
  "latToWebMercatorY la =
     (let y = ln (tan ((90 + la) * pi / 360)) / (pi / 180)
      in y * WEB_MERCATOR_MAX / 180)"

definition webMercatorXToLon :: "real \<Rightarrow> real" where
  "webMercatorXToLon x = x * 180 / WEB_MERCATOR_MAX"

definition webMercatorYToLat :: "real \<Rightarrow> real" where
  "webMercatorYToLat y =
     (let la = y * 180 / WEB_MERCATOR_MAX
      in 180 / pi * (2 * arctan (exp (la * pi / 180)) - pi / 2))"

text \<open>
  The bounds object of the mapping library, read through \<open>getSouthWest()\<close> and
  \<open>getNorthEast()\<close>.
\<close>

record bounds =
  southWest :: latlng
  northEast :: latlng

text \<open>
  \<open>convertImageCoordsToGps\<close>: the guard is the truthiness test
  \<open>!imageBounds || !imageWidth || !imageHeight\<close>; the result array \<open>[lat, lng]\<close> is a pair.
\<close>

definition convertImageCoordsToGps ::
  "real \<Rightarrow> real \<Rightarrow> bounds option \<Rightarrow> real option \<Rightarrow> real option \<Rightarrow> (real \<times> real) option" where
  "convertImageCoordsToGps imageX imageY imageBounds imageWidth imageHeight =
     (if imageBounds = None \<or> \<not> truthyNum imageWidth \<or> \<not> truthyNum imageHeight then None
      else
        let sw = southWest (the imageBounds);
            ne = northEast (the imageBounds);
            xRatio = imageX / the imageWidth;
            yRatio = imageY / the imageHeight;
            lngV = lng sw + (lng ne - lng sw) * xRatio;
            latV = lat ne - (lat ne - lat sw) * yRatio
        in Some (latV, lngV))"

section \<open>Route and spot deduplication (route-spot-handler.js)\<close>

text \<open>
  A spot record, reduced to the fields \<open>isSameSpot\<close> reads: the pixel coordinates,
  which the function tests with \<open>!== undefined\<close>, and the \<open>coordinates\<close> object, which
  it tests for truthiness.
\<close>

record spot =
  spot_imageX :: jsNumber
  spot_imageY :: jsNumber
  spot_coordinates :: "latlng option"

definition isSameSpot :: "spot \<Rightarrow> spot \<Rightarrow> bool" where
  "isSameSpot spot1 spot2 =
     (if spot_imageX spot1 \<noteq> Undefined \<and> spot_imageY spot1 \<noteq> Undefined \<and>
         spot_imageX spot2 \<noteq> Undefined \<and> spot_imageY spot2 \<noteq> Undefined
      then
        let imageXMatch = \<bar>toNumber (spot_imageX spot1) - toNumber (spot_imageX spot2)\<bar> < 0.1;
            imageYMatch = \<bar>toNumber (spot_imageY spot1) - toNumber (spot_imageY spot2)\<bar> < 0.1
        in imageXMatch \<and> imageYMatch
      else
        let coord1 = spot_coordinates spot1;
            coord2 = spot_coordinates spot2
        in if coord1 = None \<or> coord2 = None then False
           else
             let tolerance = 0.0001;
                 latMatch = \<bar>lat (the coord1) - lat (the coord2)\<bar> < tolerance;
                 lngMatch = \<bar>lng (the coord1) - lng (the coord2)\<bar> < tolerance
             in latMatch \<and> lngMatch)"

text \<open>
  A route record, reduced to its two end points; an end point carries an identifier, a
  name and a position, each of which may be missing (\<open>extractStartPoint\<close> writes
  \<open>lat: null\<close> for a route described by names only).
\<close>

record route_point =
  rp_id :: "string option"
  rp_name :: "string option"
  rp_lat :: "real option"
  rp_lng :: "real option"

record route =
  startPoint :: "route_point option"
  endPoint :: "route_point option"

definition isSameRoute :: "route \<Rightarrow> route \<Rightarrow> bool" where
  "isSameRoute route1 route2 =
     (if startPoint route1 = None \<or> endPoint route1 = None \<or>
         startPoint route2 = None \<or> endPoint route2 = None then False
      else
        let start1 = the (startPoint route1); end1 = the (endPoint route1);
            start2 = the (startPoint route2); end2 = the (endPoint route2);
            start1Id = orStr (rp_id start1) (rp_name start1);
            end1Id = orStr (rp_id end1) (rp_name end1);
            start2Id = orStr (rp_id start2) (rp_name start2);
            end2Id = orStr (rp_id end2) (rp_name end2)
        in if truthyStr start1Id \<and> truthyStr end1Id \<and> truthyStr start2Id \<and> truthyStr end2Id
           then
             let sameDirectionById = (start1Id = start2Id \<and> end1Id = end2Id);
                 reverseDirectionById = (start1Id = end2Id \<and> end1Id = start2Id)
             in sameDirectionById \<or> reverseDirectionById
           else
             let tolerance = 0.0001
             in if truthyNum (rp_lat start1) \<and> truthyNum (rp_lng start1) \<and>
                   truthyNum (rp_lat end1) \<and> truthyNum (rp_lng end1) \<and>
                   truthyNum (rp_lat start2) \<and> truthyNum (rp_lng start2) \<and>
                   truthyNum (rp_lat end2) \<and> truthyNum (rp_lng end2)
                then
                  let sameDirection =
                        (\<bar>the (rp_lat start1) - the (rp_lat start2)\<bar> < tolerance \<and>
                         \<bar>the (rp_lng start1) - the (rp_lng start2)\<bar> < tolerance \<and>
                         \<bar>the (rp_lat end1) - the (rp_lat end2)\<bar> < tolerance \<and>
                         \<bar>the (rp_lng end1) - the (rp_lng end2)\<bar> < tolerance);
                      reverseDirection =
                        (\<bar>the (rp_lat start1) - the (rp_lat end2)\<bar> < tolerance \<and>
                         \<bar>the (rp_lng start1) - the (rp_lng end2)\<bar> < tolerance \<and>
                         \<bar>the (rp_lat end1) - the (rp_lat start2)\<bar> < tolerance \<and>
                         \<bar>the (rp_lng end1) - the (rp_lng start2)\<bar> < tolerance)
                  in sameDirection \<or> reverseDirection
                else False)"

section \<open>Identifier matching (Georeferencing.matchPointJsonWithGPS)\<close>

text \<open>
  An image-coordinate entity with its three identifier fields \<open>Id\<close>, \<open>id\<close> and
  \<open>name\<close> and its pixel position, a GPS point with its \<open>pointId\<close>, and the pair the
  matching produces. The loaded point data is an array, an object with a \<open>points\<close>
  array, or a single object.
\<close>

record pointJson =
  pj_Id :: "string option"
  pj_id :: "string option"
  pj_name :: "string option"
  pj_imageX :: real
  pj_imageY :: real

record gpsPoint =
  pointId :: string
  gps_lat :: real
  gps_lng :: real

record controlPoint =
  pointJsonId :: string
  cp_pointJson :: pointJson
  cp_gpsPoint :: gpsPoint

datatype pointJsonData =
  PointArray "pointJson list"
  | PointsObject "pointJson list"
  | SinglePoint pointJson

record matchResult =
  matchedPairs :: "controlPoint list"
  unmatchedPointJsonIds :: "string list"
  totalPointJsons :: nat

definition digitChar :: "nat \<Rightarrow> char" where
  "digitChar d = char_of (48 + d)"

function natToString :: "nat \<Rightarrow> string" where
  "natToString n =
     (if n < 10 then [digitChar n] else natToString (n div 10) @ [digitChar (n mod 10)])"
  by pat_completeness auto
termination
  by (relation "measure (\<lambda>n. n)") auto

declare natToString.simps [simp del]

text \<open>
  The placeholder of an entity without identifier, the template string
  \<open>[index] (ID..)\<close> of the source; its two Japanese characters are the UTF-8 bytes
  E3 81 AA and E3 81 97.
\<close>

definition noIdPlaceholder :: "nat \<Rightarrow> string" where
  "noIdPlaceholder index =
     ''['' @ natToString index @ ''] (ID'' @
     [CHR 0xE3, CHR 0x81, CHR 0xAA, CHR 0xE3, CHR 0x81, CHR 0x97] @ '')''"

text \<open>The \<open>Map\<close> filled by \<open>gpsPoints.forEach\<close>: a later point with the same id overwrites.\<close>

definition gpsPointMap :: "gpsPoint list \<Rightarrow> (string \<rightharpoonup> gpsPoint)" where
  "gpsPointMap gpsPoints = foldl (\<lambda>m gpsPoint. m(pointId gpsPoint \<mapsto> gpsPoint)) Map.empty gpsPoints"

definition resolvePointJsonId :: "pointJson \<Rightarrow> string option" where
  "resolvePointJsonId pj = orStr (orStr (pj_Id pj) (pj_id pj)) (pj_name pj)"

text \<open>One round of the \<open>forEach\<close> over the entities, on the two result arrays.\<close>

definition matchStep ::
  "(string \<rightharpoonup> gpsPoint) \<Rightarrow> controlPoint list \<times> string list \<Rightarrow> nat \<times> pointJson
     \<Rightarrow> controlPoint list \<times> string list" where
  "matchStep gpsMap acc entry =
     (let matched = fst acc; unmatched = snd acc; index = fst entry; pj = snd entry;
          pjId = resolvePointJsonId pj
      in if \<not> truthyStr pjId then (matched, unmatched @ [noIdPlaceholder index])
         else
           (case gpsMap (the pjId) of
              Some matchingGpsPoint \<Rightarrow>
                (matched @ [\<lparr>pointJsonId = the pjId, cp_pointJson = pj,
                              cp_gpsPoint = matchingGpsPoint\<rparr>], unmatched)
            | None \<Rightarrow> (matched, unmatched @ [the pjId])))"

text \<open>
  The array the entities are read from: the data itself, its \<open>points\<close> array, or the
  single object wrapped in an array.
\<close>

definition pointJsonArray :: "pointJsonData \<Rightarrow> pointJson list" where
  "pointJsonArray d =
     (case d of PointArray ps \<Rightarrow> ps | PointsObject ps \<Rightarrow> ps | SinglePoint p \<Rightarrow> [p])"

definition matchPointJsonWithGPS :: "pointJsonData option \<Rightarrow> gpsPoint list \<Rightarrow> matchResult" where
  "matchPointJsonWithGPS pjData gpsPoints =
     (case pjData of
        None \<Rightarrow> \<lparr>matchedPairs = [], unmatchedPointJsonIds = [], totalPointJsons = 0\<rparr>
      | Some d \<Rightarrow>
          let entities = pointJsonArray d;
              gpsMap = gpsPointMap gpsPoints;
              res = foldl (matchStep gpsMap) ([], []) (zip [0..<length entities] entities)
          in \<lparr>matchedPairs = fst res, unmatchedPointJsonIds = snd res,
               totalPointJsons = length entities\<rparr>)"

section \<open>Linear solver (math-utils.js)\<close>

text \<open>
  A vector is a list of numbers and a matrix a list of rows; \<open>null\<close> is \<open>None\<close>. Every
  \<open>for\<close> loop of the source with fixed bounds is a \<open>foldl\<close> over its index range, and
  an assignment to an array element is a list update. Reading a row beyond its end gives
  \<open>undefined\<close> in JavaScript, which is no number: the theorems below are about
  rectangular matrices, where every read is in range. Each product, sum, difference and
  quotient is rounded by \<open>rnd\<close>: \<open>x += a * b\<close> is \<open>rnd (x + rnd (a * b))\<close>. Taking
  an absolute value and comparing are exact on doubles.
\<close>

type_synonym vec = "real list"
type_synonym matrix = "real list list"

datatype jsError = TypeError

definition transposeM :: "matrix option \<Rightarrow> matrix option" where
  "transposeM m =
     (case m of
        None \<Rightarrow> None
      | Some M \<Rightarrow>
          if M = [] then None
          else Some (map (\<lambda>colIndex. map (\<lambda>row. row ! colIndex) M) [0..<length (M ! 0)]))"

definition multiply :: "rounding \<Rightarrow> matrix option \<Rightarrow> matrix option \<Rightarrow> matrix option" where
  "multiply rnd a b =
     (case a of
        None \<Rightarrow> None
      | Some A \<Rightarrow>
          (case b of
             None \<Rightarrow> None
           | Some B \<Rightarrow>
               if A = [] \<or> B = [] \<or> length (A ! 0) \<noteq> length B then None
               else
                 let result = replicate (length A) (replicate (length (B ! 0)) 0)
                 in Some
                      (foldl (\<lambda>res i.
                         foldl (\<lambda>res j.
                           foldl (\<lambda>res k. res[i := (res ! i)[j := rnd (res ! i ! j + rnd (A ! i ! k * B ! k ! j))]])
                             res [0..<length B])
                           res [0..<length (B ! 0)])
                         result [0..<length A])))"

text \<open>
  \<open>multiplyVector\<close> reads \<open>matrix[0].length\<close> without testing that the matrix has a
  row: on an empty matrix that read throws a TypeError, which is the \<open>Inl\<close> result.
\<close>

definition multiplyVector ::
  "rounding \<Rightarrow> matrix option \<Rightarrow> vec option \<Rightarrow> jsError + vec option" where
  "multiplyVector rnd m v =
     (case m of
        None \<Rightarrow> Inr None
      | Some M \<Rightarrow>
          (case v of
             None \<Rightarrow> Inr None
           | Some V \<Rightarrow>
               if M = [] then Inl TypeError
               else if length (M ! 0) \<noteq> length V then Inr None
               else Inr (Some (map (\<lambda>row. foldl (\<lambda>sum vi. rnd (sum + rnd (fst vi * V ! snd vi))) 0
                                            (zip row [0..<length row])) M))))"

text \<open>The steps of one round of the elimination loop of \<open>gaussJordan\<close>.\<close>

definition selectPivot :: "matrix \<Rightarrow> nat \<Rightarrow> nat \<Rightarrow> nat" where
  "selectPivot augmented n i =
     foldl (\<lambda>maxRow k. if \<bar>augmented ! k ! i\<bar> > \<bar>augmented ! maxRow ! i\<bar> then k else maxRow)
       i [i + 1..<n]"

definition swapRows :: "matrix \<Rightarrow> nat \<Rightarrow> nat \<Rightarrow> matrix" where
  "swapRows augmented i maxRow =
     (if maxRow \<noteq> i then (augmented[i := augmented ! maxRow])[maxRow := augmented ! i]
      else augmented)"

definition normalizeRow :: "rounding \<Rightarrow> matrix \<Rightarrow> nat \<Rightarrow> nat \<Rightarrow> matrix" where
  "normalizeRow rnd augmented n i =
     (let pivot = augmented ! i ! i
      in foldl (\<lambda>aug j. aug[i := (aug ! i)[j := rnd (aug ! i ! j / pivot)]]) augmented [i..<n + 1])"

definition eliminateColumn :: "rounding \<Rightarrow> matrix \<Rightarrow> nat \<Rightarrow> nat \<Rightarrow> matrix" where
  "eliminateColumn rnd augmented n i =
     foldl (\<lambda>aug k.
       if k \<noteq> i then
         (let factor = aug ! k ! i
          in foldl (\<lambda>aug' j.
                      aug'[k := (aug' ! k)[j := rnd (aug' ! k ! j - rnd (factor * aug' ! i ! j))]])
               aug [i..<n + 1])
       else aug) augmented [0..<n]"

text \<open>
  The literal \<open>1e-10\<close> is the double nearest to \<open>10^-10\<close>.
\<close>

definition pivotTolerance :: "rounding \<Rightarrow> real" where
  "pivotTolerance rnd = rnd (1 / 10 ^ 10)"

text \<open>
  The elimination loop \<open>for (let i = 0; i < n; i++)\<close>, from round \<open>i\<close> on; \<open>None\<close> is
  the \<open>return null\<close> at a pivot below \<open>1e-10\<close>.
\<close>

function forwardElimination :: "rounding \<Rightarrow> nat \<Rightarrow> nat \<Rightarrow> matrix \<Rightarrow> matrix option" where
  "forwardElimination rnd n i augmented =
     (if i < n then
        (let maxRow = selectPivot augmented n i;
             swapped = swapRows augmented i maxRow
         in if \<bar>swapped ! i ! i\<bar> < pivotTolerance rnd then None
            else forwardElimination rnd n (i + 1)
                   (eliminateColumn rnd (normalizeRow rnd swapped n i) n i))
      else Some augmented)"
  by pat_completeness auto
termination
  by (relation "measure (\<lambda>(rnd, n, i, augmented). n - i)") auto

declare forwardElimination.simps [simp del]

text \<open>The augmented matrix \<open>A.map((row, i) => [...row, B[i]])\<close>: fresh rows.\<close>

definition augmentedMatrix :: "matrix \<Rightarrow> vec \<Rightarrow> matrix" where
  "augmentedMatrix A B = map (\<lambda>ri. fst ri @ [B ! snd ri]) (zip A [0..<length A])"

definition gaussJordan :: "rounding \<Rightarrow> matrix option \<Rightarrow> vec option \<Rightarrow> vec option" where
  "gaussJordan rnd a b =
     (case a of
        None \<Rightarrow> None
      | Some A \<Rightarrow>
          (case b of
             None \<Rightarrow> None
           | Some B \<Rightarrow>
               if length A \<noteq> length B then None
               else
                 let n = length A;
                     augmented = augmentedMatrix A B
                 in (case forwardElimination rnd n 0 augmented of
                       None \<Rightarrow> None
                     | Some solved \<Rightarrow> Some (map (\<lambda>row. row ! n) solved))))"

section \<open>Affine transform estimator (math-utils.js, affine-transformation.js)\<close>

record affineParams =
  tr_a :: real
  tr_b :: real
  tr_c :: real
  tr_d :: real
  tr_e :: real
  tr_f :: real

text \<open>
  One round of the loop that fills the design matrix: the fourteen assignments for
  control point \<open>i\<close>, on the pair of the matrix \<open>A\<close> and the vector \<open>B\<close>.
\<close>

definition setEntry :: "matrix \<Rightarrow> nat \<Rightarrow> nat \<Rightarrow> real \<Rightarrow> matrix" where
  "setEntry A r c v = A[r := (A ! r)[c := v]]"

definition fillEquations :: "controlPoint list \<Rightarrow> matrix \<times> vec \<Rightarrow> nat \<Rightarrow> matrix \<times> vec" where
  "fillEquations controlPoints AB i =
     (let imageX = pj_imageX (cp_pointJson (controlPoints ! i));
          imageY = pj_imageY (cp_pointJson (controlPoints ! i));
          gpsX = lonToWebMercatorX (gps_lng (cp_gpsPoint (controlPoints ! i)));
          gpsY = latToWebMercatorY (gps_lat (cp_gpsPoint (controlPoints ! i)));
          A = fst AB; B = snd AB;
          A = setEntry A (i * 2) 0 imageX;
          A = setEntry A (i * 2) 1 imageY;
          A = setEntry A (i * 2) 2 1;
          A = setEntry A (i * 2) 3 0;
          A = setEntry A (i * 2) 4 0;
          A = setEntry A (i * 2) 5 0;
          B = B[i * 2 := gpsX];
          A = setEntry A (i * 2 + 1) 0 0;
          A = setEntry A (i * 2 + 1) 1 0;
          A = setEntry A (i * 2 + 1) 2 0;
          A = setEntry A (i * 2 + 1) 3 imageX;
          A = setEntry A (i * 2 + 1) 4 imageY;
          A = setEntry A (i * 2 + 1) 5 1;
          B = B[i * 2 + 1 := gpsY]
      in (A, B))"

definition designSystem :: "controlPoint list \<Rightarrow> matrix \<times> vec" where
  "designSystem controlPoints =
     (let n = length controlPoints
      in foldl (fillEquations controlPoints)
           (replicate (2 * n) (replicate 6 0), replicate (2 * n) 0) [0..<n])"

text \<open>
  \<open>calculateAffineTransformation\<close> as the program runs it: the products and the
  elimination are in double arithmetic. The targets come from the coordinate conversions,
  which are modelled exactly (the language leaves the precision of \<open>Math.log\<close> and
  \<open>Math.tan\<close> to the implementation).
\<close>

definition calculateAffineTransformation :: "controlPoint list \<Rightarrow> affineParams option" where
  "calculateAffineTransformation controlPoints =
     (let AB = designSystem controlPoints;
          A = fst AB; B = snd AB;
          At = transposeM (Some A);
          AtA = multiply roundToDouble At (Some A)
      in (case multiplyVector roundToDouble At (Some B) of
            Inl err \<Rightarrow> None
          | Inr AtB \<Rightarrow>
              (case gaussJordan roundToDouble AtA AtB of
                 None \<Rightarrow> None
               | Some params \<Rightarrow>
                   Some \<lparr>tr_a = params ! 0, tr_b = params ! 1, tr_c = params ! 2,
                         tr_d = params ! 3, tr_e = params ! 4, tr_f = params ! 5\<rparr>)))"

record accuracyReport =
  meanError :: real
  maxError :: real
  minError :: real
  errors :: "real list"

text \<open>
  \<open>calculateTransformationAccuracy\<close>. \<open>Math.max\<close> and \<open>Math.min\<close> of no argument are
  infinite and the mean of no error is NaN; the function is only called with the three or
  more control points of a successful estimation.
\<close>

definition calculateTransformationAccuracy :: "controlPoint list \<Rightarrow> affineParams \<Rightarrow> accuracyReport" where
  "calculateTransformationAccuracy controlPoints t =
     (let errs = map (\<lambda>point.
                   let imageX = pj_imageX (cp_pointJson point);
                       imageY = pj_imageY (cp_pointJson point);
                       transformedX = tr_a t * imageX + tr_b t * imageY + tr_c t;
                       transformedY = tr_d t * imageX + tr_e t * imageY + tr_f t;
                       actualX = lonToWebMercatorX (gps_lng (cp_gpsPoint point));
                       actualY = latToWebMercatorY (gps_lat (cp_gpsPoint point))
                   in sqrt ((transformedX - actualX) ^ 2 + (transformedY - actualY) ^ 2))
                 controlPoints
      in \<lparr>meanError = foldl (+) 0 errs / real (length errs),
           maxError = Max (set errs),
           minError = Min (set errs),
           errors = errs\<rparr>)"

text \<open>The result object of \<open>calculatePreciseTransformation\<close>.\<close>

record transformationResult =
  tr_type :: string
  transformation :: affineParams
  accuracy :: accuracyReport
  tr_controlPoints :: "controlPoint list"
  usedPoints :: nat

definition calculatePreciseTransformation :: "controlPoint list \<Rightarrow> transformationResult option" where
  "calculatePreciseTransformation controlPoints =
     (if length controlPoints < 3 then None
      else
        (case calculateAffineTransformation controlPoints of
           None \<Rightarrow> None
         | Some t \<Rightarrow>
             Some \<lparr>tr_type = ''precise'', transformation = t,
                   accuracy = calculateTransformationAccuracy controlPoints t,
                   tr_controlPoints = controlPoints,
                   usedPoints = length controlPoints\<rparr>))"

text \<open>
  \<open>applyAffineTransform\<close>: the guard \<open>!transformation || !transformation.transformation\<close>;
  a result object always has its \<open>transformation\<close> field, so the guard tests the
  object.
\<close>

definition applyAffineTransform ::
  "real \<Rightarrow> real \<Rightarrow> transformationResult option \<Rightarrow> (real \<times> real) option" where
  "applyAffineTransform imageX imageY tr =
     (case tr of
        None \<Rightarrow> None
      | Some t \<Rightarrow>
          let trans = transformation t;
              webMercatorX = tr_a trans * imageX + tr_b trans * imageY + tr_c trans;
              webMercatorY = tr_d trans * imageX + tr_e trans * imageY + tr_f trans;
              latV = webMercatorYToLat webMercatorY;
              lngV = webMercatorXToLon webMercatorX
          in Some (latV, lngV))"

section \<open>Position synchronization (Georeferencing)\<close>

text \<open>
  A displayed position is the pair \<open>(lat, lng)\<close>. A route or spot marker carries the
  metadata object \<open>__meta\<close> with its origin tag and pixel coordinates; the pixel
  coordinates are tested with \<open>!== undefined\<close>, so a coordinate that is \<open>null\<close> passes
  the test and enters the arithmetic as 0. An entry of
  \<open>routeMarkers\<close> is a single marker (it has \<open>setLatLng\<close>), a polyline (it has
  \<open>getLatLngs\<close>, and \<open>__meta.points\<close> holds one metadata object per vertex), or a
  layer with neither method.
\<close>

type_synonym pos = "real \<times> real"

record markerMeta =
  origin :: string
  meta_imageX :: jsNumber
  meta_imageY :: jsNumber

datatype routeLayer =
  PointMarker pos "markerMeta option"
  | Polyline "pos list" "markerMeta option list option"
  | OtherLayer

record spotMarker =
  spot_latLng :: pos
  spot_meta :: "markerMeta option"

record routeSpotHandler =
  routeMarkers :: "routeLayer list option"
  spotMarkers :: "spotMarker list option"

text \<open>
  An entry of \<open>imageCoordinateMarkers\<close>: its type tag, the position and popup text of
  its marker, and the loaded record it was made from.
\<close>

record markerData =
  data_imageX :: jsNumber
  data_imageY :: jsNumber
  data_name :: "string option"
  data_id :: "string option"

record markerInfo =
  mi_type :: string
  mi_latLng :: pos
  mi_popup :: string
  mi_data :: "markerData option"

text \<open>
  What \<open>CoordinateDisplay.convertImageToLatLng\<close> reads: the overlay layer with its
  displayed bounds and the pixel size of its image (absent when no image is shown), and
  the initial centre of the map.
\<close>

record imageOverlayInfo =
  ov_bounds :: "bounds option"
  ov_naturalWidth :: "real option"
  ov_width :: "real option"
  ov_naturalHeight :: "real option"
  ov_height :: "real option"

record coordinateDisplay =
  cd_imageOverlay :: "imageOverlayInfo option"
  cd_initialCenter :: pos

definition centerBasedLatLng :: "pos \<Rightarrow> real \<Rightarrow> real \<Rightarrow> pos" where
  "centerBasedLatLng center imageX imageY =
     (let normalizedX = (imageX - 500) / 1000;
          normalizedY = (imageY - 500) / 1000;
          latV = fst center + normalizedY * 0.01;
          lngV = snd center + normalizedX * 0.01
      in (latV, lngV))"

definition convertImageToLatLng :: "coordinateDisplay \<Rightarrow> real \<Rightarrow> real \<Rightarrow> pos option" where
  "convertImageToLatLng cd imageX imageY =
     (case cd_imageOverlay cd of
        None \<Rightarrow> Some (centerBasedLatLng (cd_initialCenter cd) imageX imageY)
      | Some ov \<Rightarrow>
          if ov_bounds ov = None then Some (centerBasedLatLng (cd_initialCenter cd) imageX imageY)
          else
            let imageWidth = orNum (ov_naturalWidth ov) (ov_width ov);
                imageHeight = orNum (ov_naturalHeight ov) (ov_height ov)
            in if \<not> truthyNum imageWidth \<or> \<not> truthyNum imageHeight
               then Some (centerBasedLatLng (cd_initialCenter cd) imageX imageY)
               else convertImageCoordsToGps imageX imageY (ov_bounds ov) imageWidth imageHeight)"

text \<open>
  The fields of the \<open>Georeferencing\<close> object, with the points of its GPS store and the
  markers of its route and spot handler. The coordinate display is a collaborator whose
  overlay is moved from outside; the functions that read it take it as an argument.
\<close>

record georeferencing =
  gpsData :: "gpsPoint list"
  pointJsonData :: "pointJsonData option"
  currentTransformation :: "transformationResult option"
  imageCoordinateMarkers :: "markerInfo list"
  imageUpdateCallbackRegistered :: bool
  routeSpotHandler :: "routeSpotHandler option"

text \<open>
  \<open>transformImageCoordsToGps\<close>: without a transformation object the read of
  \<open>transformation.type\<close> throws, and the handler of the function returns \<open>null\<close>.
\<close>

definition transformImageCoordsToGps ::
  "real \<Rightarrow> real \<Rightarrow> transformationResult option \<Rightarrow> pos option" where
  "transformImageCoordsToGps imageX imageY tr =
     (case tr of
        None \<Rightarrow> None
      | Some t \<Rightarrow>
          if tr_type t = ''precise'' then applyAffineTransform imageX imageY tr else None)"

text \<open>The default popup text, four Japanese characters in UTF-8.\<close>

definition defaultPopup :: string where
  "defaultPopup =
     [CHR 0xE3, CHR 0x83, CHR 0x9D, CHR 0xE3, CHR 0x82, CHR 0xA4,
      CHR 0xE3, CHR 0x83, CHR 0xB3, CHR 0xE3, CHR 0x83, CHR 0x88]"

definition orDefault :: "string option \<Rightarrow> string \<Rightarrow> string" where
  "orDefault a d = (if truthyStr a then the a else d)"

definition isGeorefMarker :: "markerInfo \<Rightarrow> bool" where
  "isGeorefMarker markerInfo = (mi_type markerInfo = ''georeference-point'')"

text \<open>
  \<open>updateMarkerPositions\<close>: the body of its \<open>forEach\<close> on one filtered marker, and the
  pass over the array. The marker objects are shared between the filtered array and
  \<open>imageCoordinateMarkers\<close>, so the pass rewrites the entries of that type in place.
\<close>

definition updateMarkerPosition ::
  "bool \<Rightarrow> coordinateDisplay option \<Rightarrow> transformationResult option \<Rightarrow> markerInfo \<Rightarrow> markerInfo" where
  "updateMarkerPosition useTransformation cd tr markerInfo =
     (case mi_data markerInfo of
        None \<Rightarrow> markerInfo
      | Some d \<Rightarrow>
          if data_imageX d = Undefined \<or> data_imageY d = Undefined then markerInfo
          else
            let newLatLng =
                  (if useTransformation \<and> tr \<noteq> None
                   then transformImageCoordsToGps (toNumber (data_imageX d)) (toNumber (data_imageY d)) tr
                   else (case cd of
                           Some display \<Rightarrow>
                             convertImageToLatLng display (toNumber (data_imageX d))
                               (toNumber (data_imageY d))
                         | None \<Rightarrow> None))
            in (case newLatLng of
                  Some p \<Rightarrow>
                    markerInfo\<lparr>mi_latLng := p,
                               mi_popup := orDefault (orStr (data_name d) (data_id d)) defaultPopup\<rparr>
                | None \<Rightarrow> markerInfo))"

definition updateMarkerPositions ::
  "bool \<Rightarrow> coordinateDisplay option \<Rightarrow> georeferencing \<Rightarrow> georeferencing" where
  "updateMarkerPositions useTransformation cd g =
     g\<lparr>imageCoordinateMarkers :=
         map (\<lambda>markerInfo.
                if isGeorefMarker markerInfo
                then updateMarkerPosition useTransformation cd (currentTransformation g) markerInfo
                else markerInfo)
           (imageCoordinateMarkers g)\<rparr>"

definition syncPointPositionsBasedOnImageBounds ::
  "coordinateDisplay option \<Rightarrow> georeferencing \<Rightarrow> georeferencing" where
  "syncPointPositionsBasedOnImageBounds cd g = updateMarkerPositions False cd g"

definition syncPointPositions :: "coordinateDisplay option \<Rightarrow> georeferencing \<Rightarrow> georeferencing" where
  "syncPointPositions cd g =
     (if currentTransformation g = None then syncPointPositionsBasedOnImageBounds cd g
      else updateMarkerPositions True cd g)"

text \<open>
  The test \<open>meta && meta.origin === 'image' && meta.imageX !== undefined &&
  meta.imageY !== undefined\<close> of the route and spot passes, and the decision the three
  loops (single route markers, polyline vertices, spot markers) all take on it: the new
  position when the transformation yields one, the position the entity has otherwise.
\<close>

definition imageOrigin :: "markerMeta option \<Rightarrow> bool" where
  "imageOrigin meta =
     (case meta of
        None \<Rightarrow> False
      | Some m \<Rightarrow>
          origin m = ''image'' \<and> meta_imageX m \<noteq> Undefined \<and> meta_imageY m \<noteq> Undefined)"

definition syncPosition :: "transformationResult option \<Rightarrow> markerMeta option \<Rightarrow> pos \<Rightarrow> pos" where
  "syncPosition tr meta latLng =
     (if imageOrigin meta then
        (case transformImageCoordsToGps (toNumber (meta_imageX (the meta)))
                (toNumber (meta_imageY (the meta))) tr of
           Some newPos \<Rightarrow> newPos
         | None \<Rightarrow> latLng)
      else latLng)"

definition syncRouteLayer :: "transformationResult option \<Rightarrow> routeLayer \<Rightarrow> routeLayer" where
  "syncRouteLayer tr marker =
     (case marker of
        PointMarker latLng meta \<Rightarrow> PointMarker (syncPosition tr meta latLng) meta
      | Polyline currentLatLngs points \<Rightarrow>
          let metaPoints = (case points of Some ps \<Rightarrow> ps | None \<Rightarrow> []);
              newLatLngs =
                map (\<lambda>li. let pMeta = (if snd li < length metaPoints then metaPoints ! snd li else None)
                          in syncPosition tr pMeta (fst li))
                  (zip currentLatLngs [0..<length currentLatLngs])
          in Polyline newLatLngs points
      | OtherLayer \<Rightarrow> OtherLayer)"

definition syncRouteMarkers :: "georeferencing \<Rightarrow> georeferencing" where
  "syncRouteMarkers g =
     (case routeSpotHandler g of
        None \<Rightarrow> g
      | Some h \<Rightarrow>
          (case routeMarkers h of
             None \<Rightarrow> g
           | Some ms \<Rightarrow>
               g\<lparr>routeSpotHandler :=
                   Some (h\<lparr>routeMarkers := Some (map (syncRouteLayer (currentTransformation g)) ms)\<rparr>)\<rparr>))"

definition syncSpotMarker :: "transformationResult option \<Rightarrow> spotMarker \<Rightarrow> spotMarker" where
  "syncSpotMarker tr marker =
     marker\<lparr>spot_latLng := syncPosition tr (spot_meta marker) (spot_latLng marker)\<rparr>"

definition syncSpotMarkers :: "georeferencing \<Rightarrow> georeferencing" where
  "syncSpotMarkers g =
     (case routeSpotHandler g of
        None \<Rightarrow> g
      | Some h \<Rightarrow>
          (case spotMarkers h of
             None \<Rightarrow> g
           | Some ms \<Rightarrow>
               g\<lparr>routeSpotHandler :=
                   Some (h\<lparr>spotMarkers := Some (map (syncSpotMarker (currentTransformation g)) ms)\<rparr>)\<rparr>))"

definition nonEmptyArray :: "'a list option \<Rightarrow> bool" where
  "nonEmptyArray xs = (case xs of None \<Rightarrow> False | Some l \<Rightarrow> length l > 0)"

definition syncRouteSpotPositions :: "georeferencing \<Rightarrow> georeferencing" where
  "syncRouteSpotPositions g =
     (case routeSpotHandler g of
        None \<Rightarrow> g
      | Some h \<Rightarrow>
          let g1 = (if nonEmptyArray (routeMarkers h) then syncRouteMarkers g else g)
          in if nonEmptyArray (spotMarkers h) then syncSpotMarkers g1 else g1)"

text \<open>The callback registered with the image overlay: one full pass.\<close>

definition imageUpdateCallback :: "coordinateDisplay option \<Rightarrow> georeferencing \<Rightarrow> georeferencing" where
  "imageUpdateCallback cd g = syncRouteSpotPositions (syncPointPositions cd g)"

section \<open>Estimation run (Georeferencing.performGeoreferencingCalculations)\<close>

text \<open>
  \<open>updatePointJsonMarkersAfterTransformation\<close>: the body of its loop on one filtered
  marker, and the function.
\<close>

definition repositionMarker :: "transformationResult option \<Rightarrow> markerInfo \<Rightarrow> markerInfo" where
  "repositionMarker tr markerInfo =
     (case mi_data markerInfo of
        None \<Rightarrow> markerInfo
      | Some d \<Rightarrow>
          if data_imageX d = Undefined \<or> data_imageY d = Undefined then markerInfo
          else
            (case transformImageCoordsToGps (toNumber (data_imageX d)) (toNumber (data_imageY d)) tr of
               Some transformedGpsCoords \<Rightarrow>
                 markerInfo\<lparr>mi_latLng := transformedGpsCoords,
                            mi_popup := orDefault (orStr (data_name d) (data_id d)) defaultPopup\<rparr>
             | None \<Rightarrow> markerInfo))"

definition updatePointJsonMarkersAfterTransformation ::
  "coordinateDisplay option \<Rightarrow> georeferencing \<Rightarrow> georeferencing" where
  "updatePointJsonMarkersAfterTransformation cd g =
     (if currentTransformation g = None \<or> imageCoordinateMarkers g = [] then g
      else
        syncPointPositions cd
          (g\<lparr>imageCoordinateMarkers :=
               map (\<lambda>markerInfo.
                      if isGeorefMarker markerInfo
                      then repositionMarker (currentTransformation g) markerInfo
                      else markerInfo)
                 (imageCoordinateMarkers g)\<rparr>))"

text \<open>
  \<open>applyPreciseTransformation\<close> installs the transformation, has the overlay module
  re-place the image from the transformed corners (\<open>setTransformedPosition\<close>, which ends
  by notifying the registered callbacks), and repositions the point markers. The placement
  of the overlay itself belongs to that module and is not part of this state.
\<close>

definition applyPreciseTransformation ::
  "coordinateDisplay option \<Rightarrow> georeferencing \<Rightarrow> transformationResult \<Rightarrow> georeferencing" where
  "applyPreciseTransformation cd g t =
     (let g1 = g\<lparr>currentTransformation := Some t\<rparr>;
          g2 = (if imageUpdateCallbackRegistered g1 then imageUpdateCallback cd g1 else g1)
      in updatePointJsonMarkersAfterTransformation cd g2)"

definition applyTransformationToImage ::
  "coordinateDisplay option \<Rightarrow> georeferencing \<Rightarrow> transformationResult \<Rightarrow> georeferencing" where
  "applyTransformationToImage cd g t =
     (if tr_type t = ''precise'' then applyPreciseTransformation cd g t else g)"

definition performAutomaticGeoreferencing ::
  "coordinateDisplay option \<Rightarrow> georeferencing \<Rightarrow> controlPoint list \<Rightarrow> georeferencing" where
  "performAutomaticGeoreferencing cd g pairs =
     (let controlPoints = pairs
      in (case calculatePreciseTransformation controlPoints of
            Some t \<Rightarrow> syncRouteSpotPositions (applyTransformationToImage cd g t)
          | None \<Rightarrow> g))"

text \<open>
  The error thrown for fewer than three matched pairs, whose message carries the number
  of pairs, and the summary returned otherwise.
\<close>

datatype georefError = InsufficientControlPoints nat

record georefSummary =
  matchedCount :: nat
  unmatchedPoints :: "string list"
  totalPoints :: nat
  sum_totalPointJsons :: nat
  sum_matchedPairs :: "controlPoint list"
  georeferenceCompleted :: bool

definition performGeoreferencingCalculations ::
  "coordinateDisplay option \<Rightarrow> georeferencing \<Rightarrow> (georefError + georefSummary) \<times> georeferencing" where
  "performGeoreferencingCalculations cd g =
     (let gpsPoints = gpsData g;
          matchRes = matchPointJsonWithGPS (pointJsonData g) gpsPoints
      in if length (matchedPairs matchRes) \<ge> 3 then
           (let g1 = performAutomaticGeoreferencing cd g (matchedPairs matchRes);
                g2 = g1\<lparr>imageUpdateCallbackRegistered := True\<rparr>
            in (Inr \<lparr>matchedCount = length (matchedPairs matchRes),
                     unmatchedPoints = unmatchedPointJsonIds matchRes,
                     totalPoints = length gpsPoints,
                     sum_totalPointJsons = totalPointJsons matchRes,
                     sum_matchedPairs = matchedPairs matchRes,
                     georeferenceCompleted = True\<rparr>, g2))
         else (Inl (InsufficientControlPoints (length (matchedPairs matchRes))), g))"

section \<open>Observations on the linear solver\<close>

text \<open>
  The shape of an augmented matrix of \<open>n\<close> equations, a square coefficient matrix, and
  what it means for a vector to solve a system: \<open>solvesSystem A B x\<close> is \<open>A x = B\<close>
  row by row.
\<close>

definition augmentedShape :: "nat \<Rightarrow> matrix \<Rightarrow> bool" where
  "augmentedShape n M = (length M = n \<and> list_all (\<lambda>row. length row = n + 1) M)"

definition squareMatrix :: "matrix \<Rightarrow> bool" where
  "squareMatrix A = list_all (\<lambda>row. length row = length A) A"

definition solvesSystem :: "matrix \<Rightarrow> vec \<Rightarrow> vec \<Rightarrow> bool" where
  "solvesSystem A B x =
     (length x = length A \<and>
      list_all (\<lambda>k. (\<Sum>j < length A. A ! k ! j * x ! j) = B ! k) [0..<length A])"

text \<open>
  One round of the elimination loop without its test, the pivot the test of round \<open>i\<close>
  looks at, and the augmented matrix after \<open>d\<close> rounds that start at round \<open>i\<close>.
\<close>

definition pivotAfterSwap :: "nat \<Rightarrow> nat \<Rightarrow> matrix \<Rightarrow> real" where
  "pivotAfterSwap n i M = swapRows M i (selectPivot M n i) ! i ! i"

definition eliminationRound :: "rounding \<Rightarrow> nat \<Rightarrow> nat \<Rightarrow> matrix \<Rightarrow> matrix" where
  "eliminationRound rnd n i M =
     eliminateColumn rnd (normalizeRow rnd (swapRows M i (selectPivot M n i)) n i) n i"

fun roundsFrom :: "rounding \<Rightarrow> nat \<Rightarrow> nat \<Rightarrow> matrix \<Rightarrow> nat \<Rightarrow> matrix" where
  "roundsFrom rnd n i M 0 = M"
| "roundsFrom rnd n i M (Suc d) = roundsFrom rnd n (i + 1) (eliminationRound rnd n i M) d"

text \<open>
  The normal equations of a design matrix \<open>A\<close> with six columns and a target vector
  \<open>B\<close>: the matrix \<open>transpose(A) * A\<close> and the vector \<open>transpose(A) * B\<close>, entry by
  entry. \<open>roundedSum rnd f m\<close> is the sum of \<open>f 0, .., f (m - 1)\<close> as the loops of the
  source accumulate it, every product \<open>f k\<close> and every partial sum rounded.
\<close>

definition roundedSum :: "rounding \<Rightarrow> (nat \<Rightarrow> real) \<Rightarrow> nat \<Rightarrow> real" where
  "roundedSum rnd f m = foldl (\<lambda>s k. rnd (s + rnd (f k))) 0 [0..<m]"

definition normalMatrix :: "rounding \<Rightarrow> matrix \<Rightarrow> matrix" where
  "normalMatrix rnd A =
     map (\<lambda>i. map (\<lambda>j. roundedSum rnd (\<lambda>k. A ! k ! i * A ! k ! j) (length A)) [0..<6]) [0..<6]"

definition normalVector :: "rounding \<Rightarrow> matrix \<Rightarrow> vec \<Rightarrow> vec" where
  "normalVector rnd A B = map (\<lambda>i. roundedSum rnd (\<lambda>k. A ! k ! i * B ! k) (length A)) [0..<6]"

text \<open>
  Notions of the correctness proof of the elimination: the columns before \<open>i\<close> of an
  augmented matrix are unit columns, and a vector, given as a function of the index,
  satisfies every equation of an augmented matrix.
\<close>

definition unitColumns :: "nat \<Rightarrow> nat \<Rightarrow> matrix \<Rightarrow> bool" where
  "unitColumns n i M = (\<forall>c < i. \<forall>k < n. M ! k ! c = (if k = c then 1 else 0))"

definition solvesAugmented :: "nat \<Rightarrow> matrix \<Rightarrow> (nat \<Rightarrow> real) \<Rightarrow> bool" where
  "solvesAugmented n M x = (\<forall>k < n. (\<Sum>j < n. M ! k ! j * x j) = M ! k ! n)"

definition rectangular :: "nat \<Rightarrow> nat \<Rightarrow> matrix \<Rightarrow> bool" where
  "rectangular p s R = (length R = p \<and> (\<forall>i < p. length (R ! i) = s))"

text \<open>
  The two rows a control point contributes to the design matrix, and the state of the
  loop that fills the design matrix after \<open>m\<close> rounds.
\<close>

definition equationRowX :: "controlPoint \<Rightarrow> real list" where
  "equationRowX cp = [pj_imageX (cp_pointJson cp), pj_imageY (cp_pointJson cp), 1, 0, 0, 0]"

definition equationRowY :: "controlPoint \<Rightarrow> real list" where
  "equationRowY cp = [0, 0, 0, pj_imageX (cp_pointJson cp), pj_imageY (cp_pointJson cp), 1]"

definition designInvariant :: "controlPoint list \<Rightarrow> nat \<Rightarrow> matrix \<times> vec \<Rightarrow> bool" where
  "designInvariant cps m AB =
     (length (fst AB) = 2 * length cps \<and> length (snd AB) = 2 * length cps \<and>
      (\<forall>r < 2 * length cps. length (fst AB ! r) = 6) \<and>
      (\<forall>i < m. fst AB ! (2 * i) = equationRowX (cps ! i) \<and>
                fst AB ! Suc (2 * i) = equationRowY (cps ! i) \<and>
                snd AB ! (2 * i) = lonToWebMercatorX (gps_lng (cp_gpsPoint (cps ! i))) \<and>
                snd AB ! Suc (2 * i) = latToWebMercatorY (gps_lat (cp_gpsPoint (cps ! i)))))"

text \<open>Three control points on the equator, at the pixels (0, 0), (100, 0) and (0, 100).\<close>

definition controlPointAt :: "real \<Rightarrow> real \<Rightarrow> real \<Rightarrow> real \<Rightarrow> controlPoint" where
  "controlPointAt x y la lo =
     \<lparr>pointJsonId = ''P'',
      cp_pointJson = \<lparr>pj_Id = Some ''P'', pj_id = None, pj_name = None, pj_imageX = x, pj_imageY = y\<rparr>,
      cp_gpsPoint = \<lparr>pointId = ''P'', gps_lat = la, gps_lng = lo\<rparr>\<rparr>"

definition threePoints :: "controlPoint list" where
  "threePoints = [controlPointAt 0 0 0 0, controlPointAt 100 0 0 0.018, controlPointAt 0 100 0 0]"

text \<open>
  Three control points at the pixels (0, 0), (100, 0) and (0, 100), the third at latitude
  30, and three control points that coincide.
\<close>

definition surveyPoints :: "controlPoint list" where
  "surveyPoints = [controlPointAt 0 0 0 0, controlPointAt 100 0 0 0.018, controlPointAt 0 100 30 0]"

definition coincidentPoints :: "controlPoint list" where
  "coincidentPoints = [controlPointAt 0 0 30 135, controlPointAt 0 0 30 135, controlPointAt 0 0 30 135]"

section \<open>The linear solver on a store of arrays\<close>

text \<open>
  To say that \<open>gaussJordan\<close> leaves its arguments alone, arrays must be objects that can
  be shared. The store is the list of all arrays, and the address of an array is its
  index; a new array is appended. An array holds numbers or references to arrays: a vector
  is an array of numbers, a matrix an array of references to its rows. The functions below
  are \<open>gaussJordan\<close> and its loops once more, in the same arithmetic, with every read
  and every assignment of an array element made on the store. An argument that is not a
  matrix of number rows and a vector of numbers is outside the number model (spreading a
  row that is not an array throws, which the handler turns into \<open>null\<close>; arithmetic on
  an array gives NaN); for such an argument the embedding answers \<open>null\<close> and leaves the
  store as it is.
\<close>

datatype cell = Numbers "real list" | Rows "nat list"

type_synonym store = "cell list"

definition numbersAt :: "store \<Rightarrow> nat \<Rightarrow> real list" where
  "numbersAt h a = (case h ! a of Numbers xs \<Rightarrow> xs | Rows rs \<Rightarrow> [])"

definition rowsAt :: "store \<Rightarrow> nat \<Rightarrow> nat list" where
  "rowsAt h a = (case h ! a of Rows rs \<Rightarrow> rs | Numbers xs \<Rightarrow> [])"

definition isNumbers :: "cell \<Rightarrow> bool" where
  "isNumbers c = (case c of Numbers xs \<Rightarrow> True | Rows rs \<Rightarrow> False)"

text \<open>The matrix an array of row references stands for.\<close>

definition matrixAt :: "store \<Rightarrow> nat \<Rightarrow> matrix" where
  "matrixAt h a = map (numbersAt h) (rowsAt h a)"

text \<open>\<open>augmented[k][j]\<close> as a read, and \<open>augmented[k][j] = v\<close>.\<close>

definition readEntry :: "store \<Rightarrow> nat \<Rightarrow> nat \<Rightarrow> nat \<Rightarrow> real" where
  "readEntry h aug k j = numbersAt h (rowsAt h aug ! k) ! j"

definition writeEntry :: "store \<Rightarrow> nat \<Rightarrow> nat \<Rightarrow> nat \<Rightarrow> real \<Rightarrow> store" where
  "writeEntry h aug k j v =
     (let r = rowsAt h aug ! k in h[r := Numbers ((numbersAt h r)[j := v])])"

definition selectPivotStore :: "store \<Rightarrow> nat \<Rightarrow> nat \<Rightarrow> nat \<Rightarrow> nat" where
  "selectPivotStore h aug n i =
     foldl (\<lambda>maxRow k. if \<bar>readEntry h aug k i\<bar> > \<bar>readEntry h aug maxRow i\<bar> then k else maxRow)
       i [i + 1..<n]"

text \<open>The swap exchanges two references in the array \<open>augmented\<close>; no row is copied.\<close>

definition swapRowsStore :: "store \<Rightarrow> nat \<Rightarrow> nat \<Rightarrow> nat \<Rightarrow> store" where
  "swapRowsStore h aug i maxRow =
     (if maxRow \<noteq> i
      then h[aug := Rows ((rowsAt h aug)[i := rowsAt h aug ! maxRow, maxRow := rowsAt h aug ! i])]
      else h)"

definition normalizeRowStore :: "rounding \<Rightarrow> store \<Rightarrow> nat \<Rightarrow> nat \<Rightarrow> nat \<Rightarrow> store" where
  "normalizeRowStore rnd h aug n i =
     (let pivot = readEntry h aug i i
      in foldl (\<lambda>h' j. writeEntry h' aug i j (rnd (readEntry h' aug i j / pivot))) h [i..<n + 1])"

definition eliminateColumnStore :: "rounding \<Rightarrow> store \<Rightarrow> nat \<Rightarrow> nat \<Rightarrow> nat \<Rightarrow> store" where
  "eliminateColumnStore rnd h aug n i =
     foldl (\<lambda>h' k.
       if k \<noteq> i then
         (let factor = readEntry h' aug k i
          in foldl (\<lambda>h'' j. writeEntry h'' aug k j
                              (rnd (readEntry h'' aug k j - rnd (factor * readEntry h'' aug i j))))
               h' [i..<n + 1])
       else h') h [0..<n]"

text \<open>
  The elimination loop from round \<open>i\<close> on: whether it ran to its end (\<open>False\<close> is the
  \<open>return null\<close>), and the store it leaves in either case.
\<close>

function forwardEliminationStore ::
  "rounding \<Rightarrow> nat \<Rightarrow> nat \<Rightarrow> nat \<Rightarrow> store \<Rightarrow> bool \<times> store" where
  "forwardEliminationStore rnd aug n i h =
     (if i < n then
        (let maxRow = selectPivotStore h aug n i;
             swapped = swapRowsStore h aug i maxRow
         in if \<bar>readEntry swapped aug i i\<bar> < pivotTolerance rnd then (False, swapped)
            else forwardEliminationStore rnd aug n (i + 1)
                   (eliminateColumnStore rnd (normalizeRowStore rnd swapped aug n i) aug n i))
      else (True, h))"
  by pat_completeness auto
termination
  by (relation "measure (\<lambda>(rnd, aug, n, i, h). n - i)") auto

declare forwardEliminationStore.simps [simp del]

text \<open>
  The store after \<open>A.map((row, i) => [...row, B[i]])\<close>: the new array \<open>augmented\<close> at
  the first free address and its \<open>n\<close> new rows behind it.
\<close>

definition allocateAugmented :: "store \<Rightarrow> nat list \<Rightarrow> real list \<Rightarrow> store" where
  "allocateAugmented h rs bs =
     h @ [Rows (map (\<lambda>i. length h + 1 + i) [0..<length rs])] @
     map (\<lambda>i. Numbers (numbersAt h (rs ! i) @ [bs ! i])) [0..<length rs]"

text \<open>
  \<open>gaussJordan\<close> on the store: the result is \<open>null\<close> or the address of the new solution
  vector, together with the store after the call.
\<close>

definition gaussJordanStore ::
  "rounding \<Rightarrow> store \<Rightarrow> nat option \<Rightarrow> nat option \<Rightarrow> nat option \<times> store" where
  "gaussJordanStore rnd h A B =
     (case A of
        None \<Rightarrow> (None, h)
      | Some a \<Rightarrow>
          (case B of
             None \<Rightarrow> (None, h)
           | Some b \<Rightarrow>
               (case h ! a of
                  Numbers xs \<Rightarrow> (None, h)
                | Rows rs \<Rightarrow>
                    (case h ! b of
                       Rows qs \<Rightarrow> (None, h)
                     | Numbers bs \<Rightarrow>
                         if length rs \<noteq> length bs then (None, h)
                         else if \<not> list_all (\<lambda>r. isNumbers (h ! r)) rs then (None, h)
                         else
                           let n = length rs;
                               augmented = length h;
                               h1 = allocateAugmented h rs bs;
                               res = forwardEliminationStore rnd augmented n 0 h1
                           in if fst res
                              then (Some (length (snd res)),
                                    snd res @
                                    [Numbers (map (\<lambda>k. readEntry (snd res) augmented k n) [0..<n])])
                              else (None, snd res)))))"

text \<open>
  What the proof keeps of the store during the elimination: below the size \<open>N\<close> it had
  before the call it is as it was; \<open>augmented\<close> is a new array of \<open>n\<close> references to
  pairwise different new rows; and the matrix it stands for is \<open>M\<close>.
\<close>

definition storeRelation :: "nat \<Rightarrow> store \<Rightarrow> nat \<Rightarrow> nat \<Rightarrow> store \<Rightarrow> matrix \<Rightarrow> bool" where
  "storeRelation N h0 aug n h M =
     (N \<le> aug \<and> aug < length h \<and> (\<forall>p < N. h ! p = h0 ! p) \<and>
      (\<exists>rs. h ! aug = Rows rs \<and> length rs = n \<and> distinct rs \<and>
            (\<forall>r \<in> set rs. N \<le> r \<and> r < length h \<and> r \<noteq> aug \<and> isNumbers (h ! r))) \<and>
      matrixAt h aug = M)"

text \<open>
  A store in which \<open>a\<close> is a matrix of number rows and \<open>b\<close> a vector of numbers.
\<close>

definition wellTyped :: "store \<Rightarrow> nat \<Rightarrow> nat \<Rightarrow> bool" where
  "wellTyped h a b =
     (a < length h \<and> b < length h \<and> isNumbers (h ! b) \<and> \<not> isNumbers (h ! a) \<and>
      list_all (\<lambda>r. r < length h \<and> isNumbers (h ! r)) (rowsAt h a))"

definition exampleStore :: store where
  "exampleStore = [Rows [2, 1], Numbers [2, 4], Numbers [1, 2], Numbers [3, 6], Rows [3, 1]]"

definition regularStore :: store where
  "regularStore = [Numbers [2, 1], Numbers [1, 3], Rows [0, 1], Numbers [3, 5]]"

section \<open>Observations and example data\<close>

text \<open>
  The route rule as the specification words it, to be compared with \<open>isSameRoute\<close>:
  identifiers in forward or reverse order; without identifiers, the end coordinates under
  the tolerance with the same forward and reverse rule; never with a missing end point.
  An identifier is available when the record has a non-empty \<open>id\<close> or \<open>name\<close>, a
  coordinate when the record has one.
\<close>

definition routePointId :: "route_point \<Rightarrow> string option" where
  "routePointId p = orStr (rp_id p) (rp_name p)"

definition sameRouteSpec :: "route \<Rightarrow> route \<Rightarrow> bool" where
  "sameRouteSpec route1 route2 =
     (case (startPoint route1, endPoint route1, startPoint route2, endPoint route2) of
        (Some s1, Some e1, Some s2, Some e2) \<Rightarrow>
          if truthyStr (routePointId s1) \<and> truthyStr (routePointId e1) \<and>
             truthyStr (routePointId s2) \<and> truthyStr (routePointId e2)
          then (routePointId s1 = routePointId s2 \<and> routePointId e1 = routePointId e2) \<or>
               (routePointId s1 = routePointId e2 \<and> routePointId e1 = routePointId s2)
          else
            (case (rp_lat s1, rp_lng s1, rp_lat e1, rp_lng e1,
                   rp_lat s2, rp_lng s2, rp_lat e2, rp_lng e2) of
               (Some a1, Some b1, Some c1, Some d1, Some a2, Some b2, Some c2, Some d2) \<Rightarrow>
                 (\<bar>a1 - a2\<bar> < 0.0001 \<and> \<bar>b1 - b2\<bar> < 0.0001 \<and>
                  \<bar>c1 - c2\<bar> < 0.0001 \<and> \<bar>d1 - d2\<bar> < 0.0001) \<or>
                 (\<bar>a1 - c2\<bar> < 0.0001 \<and> \<bar>b1 - d2\<bar> < 0.0001 \<and>
                  \<bar>c1 - a2\<bar> < 0.0001 \<and> \<bar>d1 - b2\<bar> < 0.0001)
             | _ \<Rightarrow> False)
      | _ \<Rightarrow> False)"

definition namedPoint :: "string \<Rightarrow> route_point" where
  "namedPoint s = \<lparr>rp_id = Some s, rp_name = Some s, rp_lat = None, rp_lng = None\<rparr>"

definition placedPoint :: "real \<Rightarrow> real \<Rightarrow> route_point" where
  "placedPoint la lo = \<lparr>rp_id = None, rp_name = None, rp_lat = Some la, rp_lng = Some lo\<rparr>"

definition route1 :: route where
  "route1 = \<lparr>startPoint = Some (namedPoint ''A-01''), endPoint = Some (namedPoint ''A-05'')\<rparr>"

definition route2 :: route where
  "route2 = \<lparr>startPoint = Some (namedPoint ''A-05''), endPoint = Some (namedPoint ''A-01'')\<rparr>"

definition route3 :: route where
  "route3 = \<lparr>startPoint = Some (namedPoint ''A-01''), endPoint = Some (namedPoint ''A-09'')\<rparr>"

definition surveyedRoute :: route where
  "surveyedRoute = \<lparr>startPoint = Some (placedPoint 35 135), endPoint = Some (placedPoint 36 136)\<rparr>"

definition equatorRoute :: route where
  "equatorRoute = \<lparr>startPoint = Some (placedPoint 0 10), endPoint = Some (placedPoint 1 11)\<rparr>"

definition spotA :: spot where
  "spotA = \<lparr>spot_imageX = Num 100.00, spot_imageY = Num 50.00, spot_coordinates = None\<rparr>"

definition spotB :: spot where
  "spotB = \<lparr>spot_imageX = Num 100.05, spot_imageY = Num 50.05, spot_coordinates = None\<rparr>"

definition spotC :: spot where
  "spotC = \<lparr>spot_imageX = Num 100.2, spot_imageY = Num 50.0, spot_coordinates = None\<rparr>"

text \<open>
  A spot with GPS coordinates and no pixel properties, and a spot whose pixel properties
  are present and \<open>null\<close>.
\<close>

definition gpsSpot :: "real \<Rightarrow> real \<Rightarrow> spot" where
  "gpsSpot la lo =
     \<lparr>spot_imageX = Undefined, spot_imageY = Undefined,
      spot_coordinates = Some \<lparr>lat = la, lng = lo\<rparr>\<rparr>"

definition nullPixelSpot :: "real \<Rightarrow> real \<Rightarrow> spot" where
  "nullPixelSpot la lo =
     \<lparr>spot_imageX = Null, spot_imageY = Null, spot_coordinates = Some \<lparr>lat = la, lng = lo\<rparr>\<rparr>"

definition bounds0 :: bounds where
  "bounds0 = \<lparr>southWest = \<lparr>lat = 34, lng = 135\<rparr>, northEast = \<lparr>lat = 35, lng = 136\<rparr>\<rparr>"

text \<open>
  An entity is reported unmatched when it has no usable identifier or no GPS point carries
  its identifier.
\<close>

definition isUnmatched :: "gpsPoint list \<Rightarrow> pointJson \<Rightarrow> bool" where
  "isUnmatched gs p =
     (if truthyStr (resolvePointJsonId p) then the (resolvePointJsonId p) \<notin> pointId ` set gs
      else True)"

definition pjA :: pointJson where
  "pjA = \<lparr>pj_Id = Some ''A-01'', pj_id = Some ''ignored'', pj_name = None,
          pj_imageX = 0, pj_imageY = 0\<rparr>"

definition pjB :: pointJson where
  "pjB = \<lparr>pj_Id = None, pj_id = Some [], pj_name = None, pj_imageX = 100, pj_imageY = 0\<rparr>"

definition pjC :: pointJson where
  "pjC = \<lparr>pj_Id = None, pj_id = None, pj_name = Some ''C-09'', pj_imageX = 0, pj_imageY = 100\<rparr>"

definition gpsA :: gpsPoint where
  "gpsA = \<lparr>pointId = ''A-01'', gps_lat = 35, gps_lng = 135\<rparr>"

definition gpsA2 :: gpsPoint where
  "gpsA2 = \<lparr>pointId = ''A-01'', gps_lat = 36, gps_lng = 136\<rparr>"

definition twoPointState :: georeferencing where
  "twoPointState =
     \<lparr>gpsData = [gpsA, gpsA2], pointJsonData = Some (PointArray [pjA, pjB, pjC]),
      currentTransformation = None, imageCoordinateMarkers = [],
      imageUpdateCallbackRegistered = False, routeSpotHandler = None\<rparr>"

text \<open>
  The markers of the route and spot handler as lists (empty when the handler or its array
  is missing), the metadata of vertex \<open>j\<close> of a polyline, and the position rule of the
  synchronization for one entity: an entity of origin \<open>image\<close> whose two pixel
  coordinates are not \<open>undefined\<close> is at the transformed position when a transformation
  of type \<open>precise\<close> is installed, and where it was when the installed transformation
  is of another type; every other entity is where it was. Where an entity of origin
  \<open>image\<close> is after a pass that runs while no transformation is installed is left
  open.
\<close>

definition spotMarkersOf :: "georeferencing \<Rightarrow> spotMarker list" where
  "spotMarkersOf g =
     (case routeSpotHandler g of
        None \<Rightarrow> []
      | Some h \<Rightarrow> (case spotMarkers h of None \<Rightarrow> [] | Some ms \<Rightarrow> ms))"

definition routeMarkersOf :: "georeferencing \<Rightarrow> routeLayer list" where
  "routeMarkersOf g =
     (case routeSpotHandler g of
        None \<Rightarrow> []
      | Some h \<Rightarrow> (case routeMarkers h of None \<Rightarrow> [] | Some ms \<Rightarrow> ms))"

definition vertexMeta :: "markerMeta option list option \<Rightarrow> nat \<Rightarrow> markerMeta option" where
  "vertexMeta points j =
     (case points of None \<Rightarrow> None | Some ps \<Rightarrow> if j < length ps then ps ! j else None)"

definition repositioned ::
  "transformationResult option \<Rightarrow> markerMeta option \<Rightarrow> pos \<Rightarrow> pos \<Rightarrow> bool" where
  "repositioned tr meta old new =
     (case meta of
        None \<Rightarrow> new = old
      | Some m \<Rightarrow>
          if origin m = ''image'' \<and> meta_imageX m \<noteq> Undefined \<and> meta_imageY m \<noteq> Undefined
          then (case tr of
                  None \<Rightarrow> True
                | Some t \<Rightarrow>
                    if tr_type t = ''precise''
                    then Some new =
                           applyAffineTransform (toNumber (meta_imageX m)) (toNumber (meta_imageY m)) tr
                    else new = old)
          else new = old)"

definition imageSpot :: spotMarker where
  "imageSpot =
     \<lparr>spot_latLng = (35, 135),
      spot_meta = Some \<lparr>origin = ''image'', meta_imageX = Num 10, meta_imageY = Num 20\<rparr>\<rparr>"

definition nullPixelMarker :: spotMarker where
  "nullPixelMarker =
     \<lparr>spot_latLng = (34, 134),
      spot_meta = Some \<lparr>origin = ''image'', meta_imageX = Null, meta_imageY = Null\<rparr>\<rparr>"

definition gpsSpotMarker :: spotMarker where
  "gpsSpotMarker =
     \<lparr>spot_latLng = (36, 136),
      spot_meta = Some \<lparr>origin = ''gps'', meta_imageX = Undefined, meta_imageY = Undefined\<rparr>\<rparr>"

definition unfittedState :: georeferencing where
  "unfittedState =
     \<lparr>gpsData = [], pointJsonData = None, currentTransformation = None,
      imageCoordinateMarkers = [], imageUpdateCallbackRegistered = True,
      routeSpotHandler =
        Some \<lparr>routeMarkers = Some [], spotMarkers = Some [imageSpot, gpsSpotMarker, nullPixelMarker]\<rparr>\<rparr>"

definition exampleTransformation :: transformationResult where
  "exampleTransformation =
     \<lparr>tr_type = ''precise'',
      transformation = \<lparr>tr_a = 2, tr_b = 0, tr_c = 15000000, tr_d = 0, tr_e = - 2, tr_f = 4000000\<rparr>,
      accuracy = \<lparr>meanError = 0, maxError = 0, minError = 0, errors = [0, 0, 0]\<rparr>,
      tr_controlPoints = [], usedPoints = 3\<rparr>"

definition fittedState :: georeferencing where
  "fittedState = unfittedState\<lparr>currentTransformation := Some exampleTransformation\<rparr>"

section \<open>Double arithmetic\<close>

lemma scaleUp_skip:
  assumes m: "1 / 2 ^ 64 \<le> fst ms" and k: "117 \<le> k"
  shows "scaleUp ms k = ms"
proof -
  have "(2::real) ^ 117 \<le> 2 ^ k" using k by (intro power_increasing) simp_all
  then have "(2::real) ^ 53 * 2 ^ 64 \<le> 2 ^ k" by (simp add: power_add[symmetric])
  then have "(2::real) ^ 53 \<le> 2 ^ k / 2 ^ 64" by (simp add: field_simps)
  also have "\<dots> = (1 / 2 ^ 64) * 2 ^ k" by simp
  also have "\<dots> \<le> fst ms * 2 ^ k" using m by (intro mult_right_mono) simp_all
  finally show ?thesis by (simp add: scaleUp_def)
qed

lemma clamp_free:
  fixes s :: real
  assumes s: "1 / 2 ^ c \<le> s" and ck: "c + k \<le> 1074"
  shows "2 ^ k \<le> s * 2 ^ 1074"
proof -
  have "(2::real) ^ (c + k) \<le> 2 ^ 1074" using ck by (intro power_increasing) simp_all
  then have "(2::real) ^ k \<le> 2 ^ 1074 / 2 ^ c" by (simp add: power_add field_simps)
  also have "\<dots> = (1 / 2 ^ c) * 2 ^ 1074" by simp
  also have "\<dots> \<le> s * 2 ^ 1074" using s by (intro mult_right_mono) simp_all
  finally show ?thesis .
qed

lemma scaleUpFree_snd:
  assumes "1 / 2 ^ c \<le> snd ms"
  shows "1 / 2 ^ (c + k) \<le> snd (scaleUpFree ms k)"
proof -
  have a: "(1::real) / 2 ^ (c + k) \<le> 1 / 2 ^ c"
    by (simp add: power_add field_simps)
  have b: "(1::real) / 2 ^ (c + k) = (1 / 2 ^ c) / 2 ^ k" by (simp add: power_add)
  have "(1 / 2 ^ c) / 2 ^ k \<le> snd ms / (2::real) ^ k"
    using assms by (intro divide_right_mono) simp_all
  with a b assms show ?thesis by (auto simp: scaleUpFree_def)
qed

lemma foldl_scaleUp_free:
  "1 / 2 ^ c \<le> snd ms \<Longrightarrow> c + sum_list ks \<le> 1074 \<Longrightarrow>
   foldl scaleUp ms ks = foldl scaleUpFree ms ks"
proof (induction ks arbitrary: ms c)
  case Nil
  show ?case by simp
next
  case (Cons k ks)
  have ck: "c + k \<le> 1074" using Cons.prems(2) by simp
  have e: "scaleUp ms k = scaleUpFree ms k"
    using clamp_free[OF Cons.prems(1) ck] by (simp add: scaleUp_def scaleUpFree_def)
  have "foldl scaleUp (scaleUpFree ms k) ks = foldl scaleUpFree (scaleUpFree ms k) ks"
    using Cons.IH[OF scaleUpFree_snd[OF Cons.prems(1)], of k] Cons.prems(2) by (simp add: add.assoc)
  with e show ?case by simp
qed

lemma scaleUpFree_fst:
  "fst ms < 2 ^ 64 \<Longrightarrow> fst (foldl scaleUpFree ms ks) < 2 ^ 64"
proof (induction ks arbitrary: ms)
  case Nil
  then show ?case by simp
next
  case (Cons k ks)
  have "fst (scaleUpFree ms k) < 2 ^ 64"
  proof (cases "fst ms * 2 ^ k < 2 ^ 53")
    case True
    then have "fst (scaleUpFree ms k) < 2 ^ 53" by (simp add: scaleUpFree_def)
    also have "(2::real) ^ 53 < 2 ^ 64" by simp
    finally show ?thesis .
  next
    case False
    with Cons.prems show ?thesis by (simp add: scaleUpFree_def)
  qed
  from Cons.IH[OF this] show ?case by simp
qed

lemma scaleDown_skip:
  assumes m: "fst ms < 2 ^ 64" and k: "12 \<le> k"
  shows "scaleDown ms k = ms"
proof -
  have "(2::real) ^ 12 \<le> 2 ^ k" using k by (intro power_increasing) simp_all
  then have "(2::real) ^ 52 * 2 ^ 12 \<le> 2 ^ 52 * 2 ^ k" by simp
  then have "(2::real) ^ 64 \<le> 2 ^ 52 * 2 ^ k" by (simp add: power_add[symmetric])
  with m have "fst ms < 2 ^ 52 * 2 ^ k" by simp
  then have "\<not> 2 ^ 52 \<le> fst ms / 2 ^ k" by (simp add: field_simps)
  then show ?thesis by (simp add: scaleDown_def)
qed

lemma roundToDouble_moderate:
  assumes lo: "1 / 2 ^ 64 \<le> \<bar>x\<bar>" and hi: "\<bar>x\<bar> < 2 ^ 64"
  shows "roundToDouble x = roundModerate x"
proof -
  have sp: "binaryShifts = [1024, 512, 256, 128] @ shortShifts"
    by (simp add: binaryShifts_def shortShifts_def)
  have up0: "foldl scaleUp (\<bar>x\<bar>, 1) [1024, 512, 256, 128] = (\<bar>x\<bar>, 1)"
    using lo by (simp add: scaleUp_skip)
  have up: "foldl scaleUp (\<bar>x\<bar>, 1) binaryShifts = foldl scaleUpFree (\<bar>x\<bar>, 1) shortShifts"
    unfolding sp foldl_append up0
    by (rule foldl_scaleUp_free[where c = 0]) (simp_all add: shortShifts_def)
  define ms where "ms = foldl scaleUpFree (\<bar>x\<bar>, 1) shortShifts"
  have f: "fst ms < 2 ^ 64" unfolding ms_def using hi by (intro scaleUpFree_fst) simp
  have down: "foldl scaleDown ms binaryShifts = foldl scaleDown ms shortShifts"
    unfolding sp foldl_append using f by (simp add: scaleDown_skip)
  show ?thesis
    by (simp add: roundToDouble_def roundModerate_def up ms_def[symmetric] down)
qed

lemma roundToDouble_0: "roundToDouble 0 = 0"
  by (simp add: roundToDouble_def)

text \<open>
  The rules that evaluate a rounding: the agreement with \<open>roundModerate\<close>, for an
  argument that is a numeral, a fraction of numerals or the negative of one.
\<close>

lemmas roundToDouble_literal =
  roundToDouble_moderate [where x = "1"]
  roundToDouble_moderate [where x = "numeral a" for a]
  roundToDouble_moderate [where x = "1 / numeral b" for b]
  roundToDouble_moderate [where x = "numeral a / numeral b" for a b]
  roundToDouble_moderate [where x = "- 1"]
  roundToDouble_moderate [where x = "- numeral a" for a]
  roundToDouble_moderate [where x = "- (1 / numeral b)" for b]
  roundToDouble_moderate [where x = "- (numeral a / numeral b)" for a b]

lemmas doubleEval = roundToDouble_0 roundToDouble_literal roundModerate_def scaleUpFree_def
  scaleDown_def shortShifts_def roundHalfEven_def

lemma pivotTolerance_double:
  "pivotTolerance roundToDouble = 7737125245533627 / 77371252455336267181195264"
  by (simp add: pivotTolerance_def doubleEval Let_def)

lemma roundToDouble_tenth: "roundToDouble (1 / 10) = 3602879701896397 / 36028797018963968"
  by (simp add: doubleEval Let_def)


section \<open>Coordinate conversion within the image bounds\<close>

text \<open>
  C9, as the claim states it, fails: the guard of \<open>convertImageCoordsToGps\<close> is a
  truthiness test, which a negative width passes. With a width of \<open>-100\<close> the function
  returns a position and not \<open>null\<close>.
\<close>

theorem convertImageCoordsToGps_negative_width_counterexample:
  "(- 100 :: real) \<le> 0 \<and>
   convertImageCoordsToGps 50 25 (Some bounds0) (Some (- 100)) (Some 50) = Some (34.5, 134.5)"
  by (simp add: convertImageCoordsToGps_def truthyNum_def bounds0_def)

text \<open>
  C9, amended: \<open>convertImageCoordsToGps\<close> returns \<open>null\<close> exactly when the bounds,
  the width or the height is missing or the width or the height is zero; in every other
  case, also for a negative width or height, it returns the position interpolated within
  the bounds: the longitude from west to east by \<open>imageX / imageWidth\<close>, the latitude
  from north to south by \<open>imageY / imageHeight\<close>.
\<close>

theorem convertImageCoordsToGps_rule:
  "(convertImageCoordsToGps imageX imageY b w h = None) =
     (b = None \<or> w = None \<or> w = Some 0 \<or> h = None \<or> h = Some 0) \<and>
   (b = Some B \<and> w = Some W \<and> W \<noteq> 0 \<and> h = Some H \<and> H \<noteq> 0 \<longrightarrow>
      convertImageCoordsToGps imageX imageY b w h =
        Some (lat (northEast B) - (lat (northEast B) - lat (southWest B)) * (imageY / H),
              lng (southWest B) + (lng (northEast B) - lng (southWest B)) * (imageX / W)))"
  by (auto simp: convertImageCoordsToGps_def truthyNum_def Let_def split: option.splits)

theorem convertImageCoordsToGps_rule_witness:
  "convertImageCoordsToGps 50 25 (Some bounds0) (Some 100) (Some 50) = Some (34.5, 135.5) \<and>
   convertImageCoordsToGps 50 25 (Some bounds0) (Some 0) (Some 50) = None \<and>
   convertImageCoordsToGps 50 25 None (Some 100) (Some 50) = None \<and>
   convertImageCoordsToGps 50 25 (Some bounds0) (Some 100) None = None"
  using convertImageCoordsToGps_rule [of 50 25 "Some bounds0" "Some 100" "Some 50" bounds0 100 50]
        convertImageCoordsToGps_rule [of 50 25 "Some bounds0" "Some 0" "Some 50"]
        convertImageCoordsToGps_rule [of 50 25 None "Some 100" "Some 50"]
        convertImageCoordsToGps_rule [of 50 25 "Some bounds0" "Some 100" None]
  by (simp add: bounds0_def)

section \<open>Duplicate detection\<close>




section \<open>Identifier matching\<close>

lemma find_snoc:
  "find P (xs @ [x]) = (case find P xs of Some y \<Rightarrow> Some y | None \<Rightarrow> if P x then Some x else None)"
  by (induction xs) auto

lemma gpsPointMap_foldl:
  "foldl (\<lambda>m g. m(pointId g \<mapsto> g)) m0 gs k =
     (case find (\<lambda>g. pointId g = k) (rev gs) of Some g \<Rightarrow> Some g | None \<Rightarrow> m0 k)"
  by (induction gs arbitrary: m0) (auto split: option.splits simp: find_snoc)

lemma gpsPointMap_find:
  "gpsPointMap gs k = find (\<lambda>g. pointId g = k) (rev gs)"
  by (simp add: gpsPointMap_def gpsPointMap_foldl split: option.splits)

lemma gpsPointMap_None: "(gpsPointMap gs k = None) = (k \<notin> pointId ` set gs)"
  by (auto simp: gpsPointMap_find find_None_iff)

lemma gpsPointMap_Some: "gpsPointMap gs k = Some g \<Longrightarrow> g \<in> set gs \<and> pointId g = k"
proof -
  assume "gpsPointMap gs k = Some g"
  then have f: "find (\<lambda>g. pointId g = k) (rev gs) = Some g"
    by (simp add: gpsPointMap_find)
  then obtain i where "i < length (rev gs)" "pointId (rev gs ! i) = k" "g = rev gs ! i"
    unfolding find_Some_iff by blast
  then show ?thesis
    using nth_mem[of i "rev gs"] by simp
qed

lemma matchStep_foldl:
  "foldl (matchStep (gpsPointMap gs)) (ms, us) es =
     (ms @ map (\<lambda>e. \<lparr>pointJsonId = the (resolvePointJsonId (snd e)), cp_pointJson = snd e,
                       cp_gpsPoint = the (gpsPointMap gs (the (resolvePointJsonId (snd e))))\<rparr>)
             (filter (\<lambda>e. \<not> isUnmatched gs (snd e)) es),
      us @ map (\<lambda>e. if truthyStr (resolvePointJsonId (snd e)) then the (resolvePointJsonId (snd e))
                      else noIdPlaceholder (fst e))
             (filter (\<lambda>e. isUnmatched gs (snd e)) es))"
proof (induction es arbitrary: ms us)
  case Nil
  then show ?case by simp
next
  case (Cons e es)
  show ?case
    by (simp add: Cons.IH matchStep_def[of _ "(ms, us)" e] Let_def isUnmatched_def gpsPointMap_None[symmetric]
             split: option.splits)
qed


lemma digitChar_inj: "a < 10 \<Longrightarrow> b < 10 \<Longrightarrow> digitChar a = digitChar b \<Longrightarrow> a = b"
proof -
  assume a: "a < 10" and b: "b < 10" and e: "digitChar a = digitChar b"
  from e have "of_char (char_of (48 + a) :: char) = (of_char (char_of (48 + b) :: char) :: nat)"
    by (simp add: digitChar_def)
  with a b show ?thesis by simp
qed

lemma natToString_nonempty: "natToString n \<noteq> []"
  by (subst natToString.simps) simp

lemma natToString_inj: "natToString n = natToString m \<Longrightarrow> n = m"
proof (induction n arbitrary: m rule: less_induct)
  case (less n)
  show ?case
  proof (cases "n < 10")
    case True
    show ?thesis
    proof (cases "m < 10")
      case True
      with \<open>n < 10\<close> less.prems show ?thesis
        by (simp add: natToString.simps[of n] natToString.simps[of m] digitChar_inj)
    next
      case False
      with \<open>n < 10\<close> less.prems natToString_nonempty[of "m div 10"] show ?thesis
        by (simp add: natToString.simps[of n] natToString.simps[of m])
    qed
  next
    case False
    show ?thesis
    proof (cases "m < 10")
      case True
      with \<open>\<not> n < 10\<close> less.prems natToString_nonempty[of "n div 10"] show ?thesis
        by (simp add: natToString.simps[of n] natToString.simps[of m])
    next
      case mge: False
      from False mge less.prems
      have e: "natToString (n div 10) = natToString (m div 10)" "digitChar (n mod 10) = digitChar (m mod 10)"
        by (simp_all add: natToString.simps[of n] natToString.simps[of m])
      from False have "n div 10 < n" by simp
      with less.IH e(1) have "n div 10 = m div 10" by blast
      moreover from e(2) have "n mod 10 = m mod 10" by (simp add: digitChar_inj)
      ultimately show ?thesis
        by (metis div_mult_mod_eq)
    qed
  qed
qed

lemma noIdPlaceholder_inj: "noIdPlaceholder i = noIdPlaceholder j \<Longrightarrow> i = j"
  by (simp add: noIdPlaceholder_def natToString_inj)

lemma matchPointJsonWithGPS_lists:
  "matchPointJsonWithGPS (Some d) gs =
     \<lparr>matchedPairs =
        map (\<lambda>e. \<lparr>pointJsonId = the (resolvePointJsonId (snd e)), cp_pointJson = snd e,
                    cp_gpsPoint = the (gpsPointMap gs (the (resolvePointJsonId (snd e))))\<rparr>)
          (filter (\<lambda>e. \<not> isUnmatched gs (snd e)) (zip [0..<length (pointJsonArray d)] (pointJsonArray d))),
      unmatchedPointJsonIds =
        map (\<lambda>e. if truthyStr (resolvePointJsonId (snd e)) then the (resolvePointJsonId (snd e))
                   else noIdPlaceholder (fst e))
          (filter (\<lambda>e. isUnmatched gs (snd e)) (zip [0..<length (pointJsonArray d)] (pointJsonArray d))),
      totalPointJsons = length (pointJsonArray d)\<rparr>"
  using matchStep_foldl[of gs "[]" "[]"]
  by (simp add: matchPointJsonWithGPS_def Let_def)

text \<open>
  C8: the identifier of an entity is its \<open>Id\<close>, failing that its \<open>id\<close>, failing
  that its \<open>name\<close>. The unmatched list holds, in input order, one entry for every
  entity without usable identifier or without GPS counterpart: the placeholder built from
  the entity's index in the first case, the resolved identifier in the second. The matched
  pairs are, in input order, the remaining entities, each with the last GPS point whose
  \<open>pointId\<close> equals the resolved identifier: a pair is only ever formed on equal
  identifiers. Placeholders of different indices differ.
\<close>

theorem matchPointJsonWithGPS_identifiers:
  "resolvePointJsonId p =
     (if truthyStr (pj_Id p) then pj_Id p else if truthyStr (pj_id p) then pj_id p else pj_name p) \<and>
   unmatchedPointJsonIds (matchPointJsonWithGPS (Some d) gs) =
     map (\<lambda>e. if truthyStr (resolvePointJsonId (snd e)) then the (resolvePointJsonId (snd e))
                else noIdPlaceholder (fst e))
       (filter (\<lambda>e. isUnmatched gs (snd e)) (zip [0..<length (pointJsonArray d)] (pointJsonArray d))) \<and>
   matchedPairs (matchPointJsonWithGPS (Some d) gs) =
     map (\<lambda>e. \<lparr>pointJsonId = the (resolvePointJsonId (snd e)), cp_pointJson = snd e,
                 cp_gpsPoint = the (find (\<lambda>gp. pointId gp = the (resolvePointJsonId (snd e))) (rev gs))\<rparr>)
       (filter (\<lambda>e. \<not> isUnmatched gs (snd e)) (zip [0..<length (pointJsonArray d)] (pointJsonArray d))) \<and>
   totalPointJsons (matchPointJsonWithGPS (Some d) gs) = length (pointJsonArray d) \<and>
   (\<forall>cp \<in> set (matchedPairs (matchPointJsonWithGPS (Some d) gs)).
      cp_gpsPoint cp \<in> set gs \<and> pointId (cp_gpsPoint cp) = pointJsonId cp \<and>
      resolvePointJsonId (cp_pointJson cp) = Some (pointJsonId cp)) \<and>
   (\<forall>i j. noIdPlaceholder i = noIdPlaceholder j \<longrightarrow> i = j)"
proof -
  have pairs: "\<forall>cp \<in> set (matchedPairs (matchPointJsonWithGPS (Some d) gs)).
      cp_gpsPoint cp \<in> set gs \<and> pointId (cp_gpsPoint cp) = pointJsonId cp \<and>
      resolvePointJsonId (cp_pointJson cp) = Some (pointJsonId cp)"
  proof
    fix cp assume "cp \<in> set (matchedPairs (matchPointJsonWithGPS (Some d) gs))"
    then obtain e where e: "\<not> isUnmatched gs (snd e)"
      and cp: "cp = \<lparr>pointJsonId = the (resolvePointJsonId (snd e)), cp_pointJson = snd e,
                    cp_gpsPoint = the (gpsPointMap gs (the (resolvePointJsonId (snd e))))\<rparr>"
      by (auto simp: matchPointJsonWithGPS_lists)
    from e have "truthyStr (resolvePointJsonId (snd e))"
      and "the (resolvePointJsonId (snd e)) \<in> pointId ` set gs"
      by (simp_all add: isUnmatched_def split: if_splits)
    then obtain k where k: "resolvePointJsonId (snd e) = Some k" "k \<in> pointId ` set gs"
      by (cases "resolvePointJsonId (snd e)") (simp_all add: truthyStr_def)
    then obtain gp where gp: "gpsPointMap gs k = Some gp"
      using gpsPointMap_None[of gs k] by auto
    from gpsPointMap_Some[OF gp] cp k gp
    show "cp_gpsPoint cp \<in> set gs \<and> pointId (cp_gpsPoint cp) = pointJsonId cp \<and>
      resolvePointJsonId (cp_pointJson cp) = Some (pointJsonId cp)"
      by simp
  qed
  show ?thesis
    using pairs noIdPlaceholder_inj
    by (auto simp: matchPointJsonWithGPS_lists gpsPointMap_find resolvePointJsonId_def orStr_def)
qed

lemma noIdPlaceholder_1:
  "noIdPlaceholder (Suc 0) = ''[1] (ID'' @ [CHR 0xE3, CHR 0x81, CHR 0xAA, CHR 0xE3, CHR 0x81, CHR 0x97] @ '')''"
  by code_simp

theorem matchPointJsonWithGPS_identifiers_witness:
  "resolvePointJsonId pjA = Some ''A-01'' \<and>
   unmatchedPointJsonIds (matchPointJsonWithGPS (Some (PointArray [pjA, pjB, pjC])) [gpsA, gpsA2]) =
     [''[1] (ID'' @ [CHR 0xE3, CHR 0x81, CHR 0xAA, CHR 0xE3, CHR 0x81, CHR 0x97] @ '')'', ''C-09''] \<and>
   matchedPairs (matchPointJsonWithGPS (Some (PointArray [pjA, pjB, pjC])) [gpsA, gpsA2]) =
     [\<lparr>pointJsonId = ''A-01'', cp_pointJson = pjA, cp_gpsPoint = gpsA2\<rparr>]"
  using matchPointJsonWithGPS_identifiers [of pjA "PointArray [pjA, pjB, pjC]" "[gpsA, gpsA2]"]
  by (simp add: pointJsonArray_def isUnmatched_def resolvePointJsonId_def orStr_def truthyStr_def
        pjA_def pjB_def pjC_def gpsA_def gpsA2_def noIdPlaceholder_1)


section \<open>Estimation with too few control points\<close>

text \<open>
  C3: with fewer than three control points \<open>calculatePreciseTransformation\<close> returns
  \<open>null\<close> and \<open>performAutomaticGeoreferencing\<close> leaves the state as it is; with
  fewer than three matched pairs \<open>performGeoreferencingCalculations\<close> throws the error
  that carries the number of pairs, and the state, with its current transformation, is
  the state before the call.
\<close>

theorem insufficient_control_points:
  "(length controlPoints < 3 \<longrightarrow>
      calculatePreciseTransformation controlPoints = None \<and>
      performAutomaticGeoreferencing cd g controlPoints = g) \<and>
   (length (matchedPairs (matchPointJsonWithGPS (pointJsonData g) (gpsData g))) < 3 \<longrightarrow>
      performGeoreferencingCalculations cd g =
        (Inl (InsufficientControlPoints
               (length (matchedPairs (matchPointJsonWithGPS (pointJsonData g) (gpsData g))))), g))"
  by (simp add: calculatePreciseTransformation_def performAutomaticGeoreferencing_def
        performGeoreferencingCalculations_def Let_def)

theorem insufficient_control_points_witness:
  "length (matchedPairs (matchPointJsonWithGPS (pointJsonData twoPointState) (gpsData twoPointState))) = 1 \<and>
   performGeoreferencingCalculations None twoPointState = (Inl (InsufficientControlPoints 1), twoPointState) \<and>
   currentTransformation (snd (performGeoreferencingCalculations None twoPointState)) = None \<and>
   calculatePreciseTransformation
     [\<lparr>pointJsonId = ''A-01'', cp_pointJson = pjA, cp_gpsPoint = gpsA2\<rparr>] = None"
proof -
  have m: "matchedPairs (matchPointJsonWithGPS (pointJsonData twoPointState) (gpsData twoPointState)) =
           [\<lparr>pointJsonId = ''A-01'', cp_pointJson = pjA, cp_gpsPoint = gpsA2\<rparr>]"
    by (simp add: twoPointState_def matchPointJsonWithGPS_def matchStep_def gpsPointMap_def
          pointJsonArray_def resolvePointJsonId_def orStr_def truthyStr_def Let_def
          pjA_def pjB_def pjC_def gpsA_def gpsA2_def)
  show ?thesis
    using insufficient_control_points
            [of "[\<lparr>pointJsonId = ''A-01'', cp_pointJson = pjA, cp_gpsPoint = gpsA2\<rparr>]" None twoPointState]
    by (simp add: m) (simp add: twoPointState_def)
qed


section \<open>Position synchronization\<close>

lemma syncPosition_idem: "syncPosition tr meta (syncPosition tr meta p) = syncPosition tr meta p"
  by (simp add: syncPosition_def split: option.splits)

lemma updateMarkerPosition_data [simp]:
  "mi_data (updateMarkerPosition u cd tr mi) = mi_data mi"
  "mi_type (updateMarkerPosition u cd tr mi) = mi_type mi"
  by (auto simp: updateMarkerPosition_def Let_def split: option.splits)

lemma updateMarkerPosition_idem:
  "updateMarkerPosition u cd tr (updateMarkerPosition u cd tr mi) = updateMarkerPosition u cd tr mi"
proof (cases "mi_data mi")
  case None
  then show ?thesis by (simp add: updateMarkerPosition_def)
next
  case (Some d)
  show ?thesis
  proof (cases "data_imageX d = Undefined \<or> data_imageY d = Undefined")
    case True
    with Some show ?thesis by (simp add: updateMarkerPosition_def)
  next
    case False
    define nl where "nl = (if u \<and> tr \<noteq> None
                   then transformImageCoordsToGps (toNumber (data_imageX d)) (toNumber (data_imageY d)) tr
                   else (case cd of
                           Some display \<Rightarrow>
                             convertImageToLatLng display (toNumber (data_imageX d))
                               (toNumber (data_imageY d))
                         | None \<Rightarrow> None))"
    have step: "updateMarkerPosition u cd tr m =
       (case nl of Some p \<Rightarrow> m\<lparr>mi_latLng := p, mi_popup := orDefault (orStr (data_name d) (data_id d)) defaultPopup\<rparr>
                 | None \<Rightarrow> m)" if "mi_data m = Some d" for m
    proof -
      from False that show ?thesis
        by (simp add: updateMarkerPosition_def nl_def Let_def)
    qed
    show ?thesis
    proof (cases nl)
      case None
      then show ?thesis using step[OF Some] by simp
    next
      case (Some p)
      then show ?thesis using step[OF \<open>mi_data mi = Some d\<close>] step[of "mi\<lparr>mi_latLng := p, mi_popup := orDefault (orStr (data_name d) (data_id d)) defaultPopup\<rparr>"] \<open>mi_data mi = Some d\<close>
        by simp
    qed
  qed
qed

lemma updateGeoref_idem:
  "(if isGeorefMarker (if isGeorefMarker mi then updateMarkerPosition u cd tr mi else mi)
    then updateMarkerPosition u cd tr (if isGeorefMarker mi then updateMarkerPosition u cd tr mi else mi)
    else (if isGeorefMarker mi then updateMarkerPosition u cd tr mi else mi)) =
   (if isGeorefMarker mi then updateMarkerPosition u cd tr mi else mi)"
  by (simp add: isGeorefMarker_def updateMarkerPosition_idem)

lemma updateMarkerPositions_idem:
  "updateMarkerPositions u cd (updateMarkerPositions u cd g) = updateMarkerPositions u cd g"
proof -
  have "map (\<lambda>mi. if isGeorefMarker mi then updateMarkerPosition u cd tr mi else mi)
          (map (\<lambda>mi. if isGeorefMarker mi then updateMarkerPosition u cd tr mi else mi) ms) =
        map (\<lambda>mi. if isGeorefMarker mi then updateMarkerPosition u cd tr mi else mi) ms" for tr ms
    by (induction ms) (simp_all only: list.map updateGeoref_idem)
  then show ?thesis
    by (simp add: updateMarkerPositions_def cong: if_cong)
qed

lemma updateMarkerPositions_frame [simp]:
  "currentTransformation (updateMarkerPositions u cd g) = currentTransformation g"
  "routeSpotHandler (updateMarkerPositions u cd g) = routeSpotHandler g"
  by (simp_all add: updateMarkerPositions_def)

lemma syncPointPositions_idem:
  "syncPointPositions cd (syncPointPositions cd g) = syncPointPositions cd g"
  by (simp add: syncPointPositions_def syncPointPositionsBasedOnImageBounds_def updateMarkerPositions_idem)

lemma syncSpotMarker_idem: "syncSpotMarker tr (syncSpotMarker tr m) = syncSpotMarker tr m"
  by (simp add: syncSpotMarker_def syncPosition_idem)

lemma syncSpotMarkers_idem: "syncSpotMarkers (syncSpotMarkers g) = syncSpotMarkers g"
proof (cases "routeSpotHandler g")
  case None
  then show ?thesis by (simp add: syncSpotMarkers_def)
next
  case (Some h)
  show ?thesis
  proof (cases "spotMarkers h")
    case None
    with Some show ?thesis by (simp add: syncSpotMarkers_def)
  next
    case (Some ms)
    with \<open>routeSpotHandler g = Some h\<close> show ?thesis
      by (simp add: syncSpotMarkers_def syncSpotMarker_idem comp_def)
  qed
qed

lemma syncRouteLayer_idem: "syncRouteLayer tr (syncRouteLayer tr l) = syncRouteLayer tr l"
proof (cases l)
  case (PointMarker p meta)
  then show ?thesis by (simp add: syncRouteLayer_def syncPosition_idem)
next
  case (Polyline vs mp)
  define f where "f = (\<lambda>li :: pos \<times> nat. syncPosition tr
        (if snd li < length (case mp of None \<Rightarrow> [] | Some ps \<Rightarrow> ps)
         then (case mp of None \<Rightarrow> [] | Some ps \<Rightarrow> ps) ! snd li else None) (fst li))"
  have "map f (zip (map f (zip vs [0..<length vs])) [0..<length vs]) = map f (zip vs [0..<length vs])"
    by (rule nth_equalityI) (simp_all add: f_def syncPosition_idem)
  then show ?thesis
    using Polyline by (simp add: syncRouteLayer_def Let_def f_def)
next
  case OtherLayer
  then show ?thesis by (simp add: syncRouteLayer_def)
qed

lemma syncRouteMarkers_idem: "syncRouteMarkers (syncRouteMarkers g) = syncRouteMarkers g"
proof (cases "routeSpotHandler g")
  case None
  then show ?thesis by (simp add: syncRouteMarkers_def)
next
  case (Some h)
  show ?thesis
  proof (cases "routeMarkers h")
    case None
    with Some show ?thesis by (simp add: syncRouteMarkers_def)
  next
    case (Some ms)
    with \<open>routeSpotHandler g = Some h\<close> show ?thesis
      by (simp add: syncRouteMarkers_def syncRouteLayer_idem comp_def)
  qed
qed


lemma syncRouteMarkers_frame [simp]:
  "currentTransformation (syncRouteMarkers g) = currentTransformation g"
  "imageCoordinateMarkers (syncRouteMarkers g) = imageCoordinateMarkers g"
  by (simp_all add: syncRouteMarkers_def split: option.splits)

lemma syncSpotMarkers_frame [simp]:
  "currentTransformation (syncSpotMarkers g) = currentTransformation g"
  "imageCoordinateMarkers (syncSpotMarkers g) = imageCoordinateMarkers g"
  by (simp_all add: syncSpotMarkers_def split: option.splits)


lemma nonEmptyArray_map [simp]: "nonEmptyArray (Some (map f xs)) = nonEmptyArray (Some xs)"
  by (simp add: nonEmptyArray_def)

lemma syncRouteMarkers_handler:
  "routeSpotHandler g = Some h \<Longrightarrow> routeMarkers h = Some ms \<Longrightarrow>
   routeSpotHandler (syncRouteMarkers g) =
     Some (h\<lparr>routeMarkers := Some (map (syncRouteLayer (currentTransformation g)) ms)\<rparr>)"
  by (simp add: syncRouteMarkers_def)

lemma syncSpotMarkers_handler:
  "routeSpotHandler g = Some h \<Longrightarrow> spotMarkers h = Some ms \<Longrightarrow>
   routeSpotHandler (syncSpotMarkers g) =
     Some (h\<lparr>spotMarkers := Some (map (syncSpotMarker (currentTransformation g)) ms)\<rparr>)"
  by (simp add: syncSpotMarkers_def)

lemma syncRouteMarkers_spots [simp]: "spotMarkersOf (syncRouteMarkers g) = spotMarkersOf g"
  by (simp add: syncRouteMarkers_def spotMarkersOf_def split: option.splits)

lemma syncSpotMarkers_routes [simp]: "routeMarkersOf (syncSpotMarkers g) = routeMarkersOf g"
  by (simp add: syncSpotMarkers_def routeMarkersOf_def split: option.splits)

lemma syncSpotMarkers_spots:
  "spotMarkersOf (syncSpotMarkers g) = map (syncSpotMarker (currentTransformation g)) (spotMarkersOf g)"
  by (simp add: syncSpotMarkers_def spotMarkersOf_def split: option.splits)

lemma syncRouteMarkers_routes:
  "routeMarkersOf (syncRouteMarkers g) = map (syncRouteLayer (currentTransformation g)) (routeMarkersOf g)"
  by (simp add: syncRouteMarkers_def routeMarkersOf_def split: option.splits)

lemma syncRouteSpotPositions_frame [simp]:
  "currentTransformation (syncRouteSpotPositions g) = currentTransformation g"
  "imageCoordinateMarkers (syncRouteSpotPositions g) = imageCoordinateMarkers g"
  by (simp_all add: syncRouteSpotPositions_def Let_def split: option.splits)

lemma syncRouteSpotPositions_spots:
  "spotMarkersOf (syncRouteSpotPositions g) = map (syncSpotMarker (currentTransformation g)) (spotMarkersOf g)"
proof (cases "routeSpotHandler g")
  case None
  then show ?thesis by (simp add: syncRouteSpotPositions_def spotMarkersOf_def)
next
  case (Some h)
  have a: "spotMarkersOf (if nonEmptyArray (routeMarkers h) then syncRouteMarkers g else g) = spotMarkersOf g"
    by simp
  have b: "currentTransformation (if nonEmptyArray (routeMarkers h) then syncRouteMarkers g else g) = currentTransformation g"
    by simp
  show ?thesis
  proof (cases "nonEmptyArray (spotMarkers h)")
    case True
    with Some show ?thesis
      by (simp add: syncRouteSpotPositions_def Let_def syncSpotMarkers_spots a b del: if_split cong: if_cong)
  next
    case False
    then have "spotMarkersOf g = []"
      using Some by (auto simp: nonEmptyArray_def spotMarkersOf_def split: option.splits)
    with Some False show ?thesis
      by (simp add: syncRouteSpotPositions_def Let_def a)
  qed
qed

lemma syncRouteSpotPositions_routes:
  "routeMarkersOf (syncRouteSpotPositions g) = map (syncRouteLayer (currentTransformation g)) (routeMarkersOf g)"
proof (cases "routeSpotHandler g")
  case None
  then show ?thesis by (simp add: syncRouteSpotPositions_def routeMarkersOf_def)
next
  case (Some h)
  have a: "routeMarkersOf (if nonEmptyArray (routeMarkers h) then syncRouteMarkers g else g) =
           map (syncRouteLayer (currentTransformation g)) (routeMarkersOf g)"
  proof (cases "nonEmptyArray (routeMarkers h)")
    case True
    then show ?thesis by (simp add: syncRouteMarkers_routes)
  next
    case False
    then have "routeMarkersOf g = []"
      using Some by (auto simp: nonEmptyArray_def routeMarkersOf_def split: option.splits)
    with False show ?thesis by simp
  qed
  show ?thesis
    using Some a by (simp add: syncRouteSpotPositions_def Let_def)
qed

lemma syncPosition_repositioned: "repositioned tr meta p (syncPosition tr meta p)"
  by (auto simp: repositioned_def syncPosition_def imageOrigin_def transformImageCoordsToGps_def
        applyAffineTransform_def Let_def split: option.splits)

lemma syncRouteLayer_Polyline:
  "syncRouteLayer tr (Polyline vs mp) =
     Polyline (map (\<lambda>j. syncPosition tr (vertexMeta mp j) (vs ! j)) [0..<length vs]) mp"
proof -
  have "map (\<lambda>li. syncPosition tr
              (if snd li < length (case mp of Some ps \<Rightarrow> ps | None \<Rightarrow> [])
               then (case mp of Some ps \<Rightarrow> ps | None \<Rightarrow> []) ! snd li else None) (fst li))
          (zip vs [0..<length vs]) =
        map (\<lambda>j. syncPosition tr (vertexMeta mp j) (vs ! j)) [0..<length vs]"
    by (rule nth_equalityI) (auto simp: vertexMeta_def split: option.splits)
  then show ?thesis
    by (simp add: syncRouteLayer_def Let_def)
qed

text \<open>
  C4, amended: in every pass over the route and spot markers, every entity that is not of
  origin \<open>image\<close> with both pixel coordinates defined (in particular every entity of
  origin \<open>gps\<close>) keeps its position, whatever the current transformation is; and in
  every pass that runs while a transformation of type \<open>precise\<close> is installed, every
  entity of origin \<open>image\<close> whose \<open>imageX\<close> and \<open>imageY\<close> are defined (not
  \<open>undefined\<close>; a coordinate that is \<open>null\<close> enters the arithmetic as 0) is moved to
  \<open>applyAffineTransform(imageX, imageY, currentTransformation)\<close>. This holds for spot
  markers, single route markers and each vertex of a polyline; the metadata and the number
  of entities do not change.
\<close>

theorem sync_pass_positions:
  "length (spotMarkersOf (syncRouteSpotPositions g)) = length (spotMarkersOf g) \<and>
   length (routeMarkersOf (syncRouteSpotPositions g)) = length (routeMarkersOf g) \<and>
   (\<forall>i < length (spotMarkersOf g).
      spot_meta (spotMarkersOf (syncRouteSpotPositions g) ! i) = spot_meta (spotMarkersOf g ! i) \<and>
      repositioned (currentTransformation g) (spot_meta (spotMarkersOf g ! i))
        (spot_latLng (spotMarkersOf g ! i))
        (spot_latLng (spotMarkersOf (syncRouteSpotPositions g) ! i))) \<and>
   (\<forall>i < length (routeMarkersOf g).
      (case routeMarkersOf g ! i of
         PointMarker p meta \<Rightarrow>
           (\<exists>p'. routeMarkersOf (syncRouteSpotPositions g) ! i = PointMarker p' meta \<and>
                 repositioned (currentTransformation g) meta p p')
       | Polyline vs points \<Rightarrow>
           (\<exists>vs'. routeMarkersOf (syncRouteSpotPositions g) ! i = Polyline vs' points \<and>
                  length vs' = length vs \<and>
                  (\<forall>j < length vs.
                     repositioned (currentTransformation g) (vertexMeta points j) (vs ! j) (vs' ! j)))
       | OtherLayer \<Rightarrow> routeMarkersOf (syncRouteSpotPositions g) ! i = OtherLayer))"
proof -
  have spots: "\<forall>i < length (spotMarkersOf g).
      spot_meta (spotMarkersOf (syncRouteSpotPositions g) ! i) = spot_meta (spotMarkersOf g ! i) \<and>
      repositioned (currentTransformation g) (spot_meta (spotMarkersOf g ! i))
        (spot_latLng (spotMarkersOf g ! i))
        (spot_latLng (spotMarkersOf (syncRouteSpotPositions g) ! i))"
    by (simp add: syncRouteSpotPositions_spots syncSpotMarker_def syncPosition_repositioned)
  have routes: "\<forall>i < length (routeMarkersOf g).
      (case routeMarkersOf g ! i of
         PointMarker p meta \<Rightarrow>
           (\<exists>p'. routeMarkersOf (syncRouteSpotPositions g) ! i = PointMarker p' meta \<and>
                 repositioned (currentTransformation g) meta p p')
       | Polyline vs points \<Rightarrow>
           (\<exists>vs'. routeMarkersOf (syncRouteSpotPositions g) ! i = Polyline vs' points \<and>
                  length vs' = length vs \<and>
                  (\<forall>j < length vs.
                     repositioned (currentTransformation g) (vertexMeta points j) (vs ! j) (vs' ! j)))
       | OtherLayer \<Rightarrow> routeMarkersOf (syncRouteSpotPositions g) ! i = OtherLayer)"
  proof (intro allI impI)
    fix i assume i: "i < length (routeMarkersOf g)"
    show "case routeMarkersOf g ! i of
         PointMarker p meta \<Rightarrow>
           (\<exists>p'. routeMarkersOf (syncRouteSpotPositions g) ! i = PointMarker p' meta \<and>
                 repositioned (currentTransformation g) meta p p')
       | Polyline vs points \<Rightarrow>
           (\<exists>vs'. routeMarkersOf (syncRouteSpotPositions g) ! i = Polyline vs' points \<and>
                  length vs' = length vs \<and>
                  (\<forall>j < length vs.
                     repositioned (currentTransformation g) (vertexMeta points j) (vs ! j) (vs' ! j)))
       | OtherLayer \<Rightarrow> routeMarkersOf (syncRouteSpotPositions g) ! i = OtherLayer"
    proof (cases "routeMarkersOf g ! i")
      case (PointMarker p meta)
      with i show ?thesis
        by (simp add: syncRouteSpotPositions_routes syncRouteLayer_def syncPosition_repositioned)
    next
      case (Polyline vs points)
      with i show ?thesis
        by (simp add: syncRouteSpotPositions_routes syncRouteLayer_Polyline syncPosition_repositioned)
    next
      case OtherLayer
      with i show ?thesis
        by (simp add: syncRouteSpotPositions_routes syncRouteLayer_def)
    qed
  qed
  show ?thesis
    using spots routes
    by (simp add: syncRouteSpotPositions_spots syncRouteSpotPositions_routes)
qed

text \<open>
  C4, as the claim states it, fails: a pass also runs while no transformation is
  installed (the callback is registered even when the estimation found none). For a spot
  of origin \<open>image\<close> with both pixel coordinates, \<open>applyAffineTransform\<close> then has no
  result (it returns \<open>null\<close>), and the spot is not repositioned.
\<close>

theorem sync_without_transformation_counterexample:
  "spot_meta (spotMarkersOf unfittedState ! 0) =
     Some \<lparr>origin = ''image'', meta_imageX = Num 10, meta_imageY = Num 20\<rparr> \<and>
   currentTransformation unfittedState = None \<and>
   applyAffineTransform 10 20 (currentTransformation unfittedState) = None \<and>
   Some (spot_latLng (spotMarkersOf (syncRouteSpotPositions unfittedState) ! 0)) \<noteq>
     applyAffineTransform 10 20 (currentTransformation unfittedState)"
  by (simp add: unfittedState_def imageSpot_def syncRouteSpotPositions_def syncSpotMarkers_def
        syncSpotMarker_def syncPosition_def imageOrigin_def transformImageCoordsToGps_def
        applyAffineTransform_def spotMarkersOf_def nonEmptyArray_def Let_def)

theorem sync_pass_positions_witness:
  "Some (spot_latLng (spotMarkersOf (syncRouteSpotPositions fittedState) ! 0)) =
     applyAffineTransform 10 20 (Some exampleTransformation) \<and>
   spot_latLng (spotMarkersOf (syncRouteSpotPositions fittedState) ! 1) = (36, 136) \<and>
   Some (spot_latLng (spotMarkersOf (syncRouteSpotPositions fittedState) ! 2)) =
     applyAffineTransform 0 0 (Some exampleTransformation) \<and>
   spot_latLng (spotMarkersOf (syncRouteSpotPositions unfittedState) ! 1) = (36, 136)"
proof -
  have u: "spotMarkersOf unfittedState = [imageSpot, gpsSpotMarker, nullPixelMarker]"
    "currentTransformation unfittedState = None"
    by (simp_all add: unfittedState_def spotMarkersOf_def)
  have f: "spotMarkersOf fittedState = [imageSpot, gpsSpotMarker, nullPixelMarker]"
    "currentTransformation fittedState = Some exampleTransformation"
    by (simp_all add: fittedState_def unfittedState_def spotMarkersOf_def)
  note sf = sync_pass_positions [of fittedState, THEN conjunct2, THEN conjunct2, THEN conjunct1,
              rule_format]
  note su = sync_pass_positions [of unfittedState, THEN conjunct2, THEN conjunct2, THEN conjunct1,
              rule_format]
  have "repositioned (Some exampleTransformation) (spot_meta imageSpot) (spot_latLng imageSpot)
          (spot_latLng (spotMarkersOf (syncRouteSpotPositions fittedState) ! 0))"
    using sf [of 0] by (simp add: f)
  moreover
  have "repositioned (Some exampleTransformation) (spot_meta gpsSpotMarker) (spot_latLng gpsSpotMarker)
          (spot_latLng (spotMarkersOf (syncRouteSpotPositions fittedState) ! 1))"
    using sf [of 1] by (simp add: f)
  moreover
  have "repositioned (Some exampleTransformation) (spot_meta nullPixelMarker)
          (spot_latLng nullPixelMarker)
          (spot_latLng (spotMarkersOf (syncRouteSpotPositions fittedState) ! 2))"
    using sf [of 2] by (simp add: f)
  moreover
  have "repositioned None (spot_meta gpsSpotMarker) (spot_latLng gpsSpotMarker)
          (spot_latLng (spotMarkersOf (syncRouteSpotPositions unfittedState) ! 1))"
    using su [of 1] by (simp add: u)
  ultimately show ?thesis
    by (simp add: repositioned_def imageSpot_def gpsSpotMarker_def nullPixelMarker_def
          exampleTransformation_def toNumber_def)
qed

lemma syncPointPositions_frame [simp]:
  "currentTransformation (syncPointPositions cd g) = currentTransformation g"
  "routeSpotHandler (syncPointPositions cd g) = routeSpotHandler g"
  by (simp_all add: syncPointPositions_def syncPointPositionsBasedOnImageBounds_def)

lemma syncRouteMarkers_shape:
  "routeSpotHandler g = Some h \<Longrightarrow>
   \<exists>h1. routeSpotHandler (syncRouteMarkers g) = Some h1 \<and>
        nonEmptyArray (routeMarkers h1) = nonEmptyArray (routeMarkers h) \<and>
        spotMarkers h1 = spotMarkers h"
  by (cases "routeMarkers h") (simp_all add: syncRouteMarkers_def nonEmptyArray_def)

lemma syncSpotMarkers_shape:
  "routeSpotHandler g = Some h \<Longrightarrow>
   \<exists>h1. routeSpotHandler (syncSpotMarkers g) = Some h1 \<and>
        nonEmptyArray (spotMarkers h1) = nonEmptyArray (spotMarkers h) \<and>
        routeMarkers h1 = routeMarkers h"
  by (cases "spotMarkers h") (simp_all add: syncSpotMarkers_def nonEmptyArray_def)

lemma syncRouteSpot_commute: "syncRouteMarkers (syncSpotMarkers x) = syncSpotMarkers (syncRouteMarkers x)"
proof (cases "routeSpotHandler x")
  case None
  then show ?thesis by (simp add: syncRouteMarkers_def syncSpotMarkers_def)
next
  case (Some h)
  then show ?thesis
    by (cases "routeMarkers h"; cases "spotMarkers h")
       (simp_all add: syncRouteMarkers_def syncSpotMarkers_def)
qed

lemma syncRouteSpotPositions_idem:
  "syncRouteSpotPositions (syncRouteSpotPositions g) = syncRouteSpotPositions g"
proof (cases "routeSpotHandler g")
  case None
  then show ?thesis by (simp add: syncRouteSpotPositions_def)
next
  case (Some h)
  define g1 where "g1 = (if nonEmptyArray (routeMarkers h) then syncRouteMarkers g else g)"
  define g2 where "g2 = (if nonEmptyArray (spotMarkers h) then syncSpotMarkers g1 else g1)"
  have g2: "syncRouteSpotPositions g = g2"
    using Some by (simp add: syncRouteSpotPositions_def g1_def g2_def Let_def)
  have "\<exists>h1. routeSpotHandler g1 = Some h1 \<and>
        nonEmptyArray (routeMarkers h1) = nonEmptyArray (routeMarkers h) \<and>
        spotMarkers h1 = spotMarkers h"
    using Some syncRouteMarkers_shape[OF Some] by (cases "nonEmptyArray (routeMarkers h)") (auto simp: g1_def)
  then obtain h1 where h1: "routeSpotHandler g1 = Some h1"
        "nonEmptyArray (routeMarkers h1) = nonEmptyArray (routeMarkers h)"
        "spotMarkers h1 = spotMarkers h" by blast
  have "\<exists>h2. routeSpotHandler g2 = Some h2 \<and>
        nonEmptyArray (spotMarkers h2) = nonEmptyArray (spotMarkers h) \<and>
        nonEmptyArray (routeMarkers h2) = nonEmptyArray (routeMarkers h)"
    using h1 syncSpotMarkers_shape[OF h1(1)] by (cases "nonEmptyArray (spotMarkers h)") (auto simp: g2_def)
  then obtain h2 where h2: "routeSpotHandler g2 = Some h2"
        "nonEmptyArray (spotMarkers h2) = nonEmptyArray (spotMarkers h)"
        "nonEmptyArray (routeMarkers h2) = nonEmptyArray (routeMarkers h)" by blast
  have r: "(if nonEmptyArray (routeMarkers h) then syncRouteMarkers g2 else g2) = g2"
    by (simp add: g2_def g1_def syncRouteSpot_commute syncRouteMarkers_idem)
  have s: "(if nonEmptyArray (spotMarkers h) then syncSpotMarkers g2 else g2) = g2"
    by (simp add: g2_def syncSpotMarkers_idem)
  have "syncRouteSpotPositions g2 = g2"
    using h2 r s by (simp add: syncRouteSpotPositions_def Let_def)
  then show ?thesis by (simp add: g2)
qed

lemma sync_commute:
  "syncPointPositions cd (syncRouteSpotPositions g) = syncRouteSpotPositions (syncPointPositions cd g)"
proof -
  have rm: "syncRouteMarkers (updateMarkerPositions u cd x) = updateMarkerPositions u cd (syncRouteMarkers x)" for u x
  proof (cases "routeSpotHandler x")
    case None
    then show ?thesis by (simp add: syncRouteMarkers_def)
  next
    case (Some h)
    then show ?thesis
      by (cases "routeMarkers h") (simp_all add: syncRouteMarkers_def updateMarkerPositions_def)
  qed
  have sm: "syncSpotMarkers (updateMarkerPositions u cd x) = updateMarkerPositions u cd (syncSpotMarkers x)" for u x
  proof (cases "routeSpotHandler x")
    case None
    then show ?thesis by (simp add: syncSpotMarkers_def)
  next
    case (Some h)
    then show ?thesis
      by (cases "spotMarkers h") (simp_all add: syncSpotMarkers_def updateMarkerPositions_def)
  qed
  have rs: "syncRouteSpotPositions (updateMarkerPositions u cd x) = updateMarkerPositions u cd (syncRouteSpotPositions x)" for u x
    by (cases "routeSpotHandler x") (simp_all add: syncRouteSpotPositions_def Let_def rm sm)
  show ?thesis
    by (simp add: syncPointPositions_def syncPointPositionsBasedOnImageBounds_def rs)
qed

text \<open>
  C5: the synchronization is idempotent. Running \<open>updateMarkerPositions\<close> a second
  time with the same flag, the same coordinate display and the same state gives the state
  the first run produced, and so do the pass over the point markers, the passes over the
  route markers and the spot markers, their combination, and the whole callback.
\<close>

theorem position_sync_idempotent:
  "updateMarkerPositions useTransformation cd (updateMarkerPositions useTransformation cd g) =
     updateMarkerPositions useTransformation cd g \<and>
   syncPointPositions cd (syncPointPositions cd g) = syncPointPositions cd g \<and>
   syncRouteMarkers (syncRouteMarkers g) = syncRouteMarkers g \<and>
   syncSpotMarkers (syncSpotMarkers g) = syncSpotMarkers g \<and>
   syncRouteSpotPositions (syncRouteSpotPositions g) = syncRouteSpotPositions g \<and>
   imageUpdateCallback cd (imageUpdateCallback cd g) = imageUpdateCallback cd g"
  by (simp add: updateMarkerPositions_idem syncPointPositions_idem syncRouteMarkers_idem
        syncSpotMarkers_idem syncRouteSpotPositions_idem imageUpdateCallback_def sync_commute)


section \<open>The linear solver\<close>

declare exact_def [simp]

lemma pivotTolerance_exact [simp]: "pivotTolerance exact = 1 / 10 ^ 10"
  by (simp add: pivotTolerance_def)

lemma augmentedShape_nth:
  "augmentedShape n M \<Longrightarrow> k < n \<Longrightarrow> length (M ! k) = Suc n"
  by (simp add: augmentedShape_def list_all_length)

lemma augmentedShape_length: "augmentedShape n M \<Longrightarrow> length M = n"
  by (simp add: augmentedShape_def)

lemma augmentedShapeI:
  "length M = n \<Longrightarrow> (\<And>k. k < n \<Longrightarrow> length (M ! k) = Suc n) \<Longrightarrow> augmentedShape n M"
  by (simp add: augmentedShape_def list_all_length)

lemma selectPivot_fold:
  fixes M :: matrix
  shows "i < b \<Longrightarrow>
   i \<le> foldl (\<lambda>maxRow k. if \<bar>M ! k ! i\<bar> > \<bar>M ! maxRow ! i\<bar> then k else maxRow) i [Suc i..<b] \<and>
   foldl (\<lambda>maxRow k. if \<bar>M ! k ! i\<bar> > \<bar>M ! maxRow ! i\<bar> then k else maxRow) i [Suc i..<b] < b \<and>
   (\<forall>k. i \<le> k \<and> k < b \<longrightarrow>
      \<bar>M ! k ! i\<bar> \<le> \<bar>M ! (foldl (\<lambda>maxRow k. if \<bar>M ! k ! i\<bar> > \<bar>M ! maxRow ! i\<bar> then k else maxRow) i [Suc i..<b]) ! i\<bar>) \<and>
   (\<forall>k. i \<le> k \<and> k < foldl (\<lambda>maxRow k. if \<bar>M ! k ! i\<bar> > \<bar>M ! maxRow ! i\<bar> then k else maxRow) i [Suc i..<b] \<longrightarrow>
      \<bar>M ! k ! i\<bar> < \<bar>M ! (foldl (\<lambda>maxRow k. if \<bar>M ! k ! i\<bar> > \<bar>M ! maxRow ! i\<bar> then k else maxRow) i [Suc i..<b]) ! i\<bar>)"
proof (induction b)
  case 0
  then show ?case by simp
next
  case (Suc b)
  show ?case
  proof (cases "i < b")
    case False
    with Suc.prems have "b = i" by simp
    moreover have "\<forall>k. i \<le> k \<and> k < Suc i \<longrightarrow> \<bar>M ! k ! i\<bar> \<le> \<bar>M ! i ! i\<bar>"
    proof (intro allI impI)
      fix k assume "i \<le> k \<and> k < Suc i"
      then have "k = i" by simp
      then show "\<bar>M ! k ! i\<bar> \<le> \<bar>M ! i ! i\<bar>" by simp
    qed
    ultimately show ?thesis by simp
  next
    case True
    define m where "m = foldl (\<lambda>maxRow k. if \<bar>M ! k ! i\<bar> > \<bar>M ! maxRow ! i\<bar> then k else maxRow) i [Suc i..<b]"
    from Suc.IH[OF True]
    have ih: "i \<le> m" "m < b" "\<forall>k. i \<le> k \<and> k < b \<longrightarrow> \<bar>M ! k ! i\<bar> \<le> \<bar>M ! m ! i\<bar>"
      "\<forall>k. i \<le> k \<and> k < m \<longrightarrow> \<bar>M ! k ! i\<bar> < \<bar>M ! m ! i\<bar>"
      unfolding m_def by blast+
    have step: "foldl (\<lambda>maxRow k. if \<bar>M ! k ! i\<bar> > \<bar>M ! maxRow ! i\<bar> then k else maxRow) i [Suc i..<Suc b] =
       (if \<bar>M ! b ! i\<bar> > \<bar>M ! m ! i\<bar> then b else m)"
      using True by (simp add: m_def)
    show ?thesis
    proof (cases "\<bar>M ! b ! i\<bar> > \<bar>M ! m ! i\<bar>")
      case gt: True
      have "\<forall>k. i \<le> k \<and> k < Suc b \<longrightarrow> \<bar>M ! k ! i\<bar> \<le> \<bar>M ! b ! i\<bar>"
        using ih(3) gt by (auto simp: less_Suc_eq)
      moreover have "\<forall>k. i \<le> k \<and> k < b \<longrightarrow> \<bar>M ! k ! i\<bar> < \<bar>M ! b ! i\<bar>"
        using ih(3) gt by (meson le_less_trans)
      ultimately show ?thesis
        unfolding step using gt True by simp
    next
      case le: False
      have "\<forall>k. i \<le> k \<and> k < Suc b \<longrightarrow> \<bar>M ! k ! i\<bar> \<le> \<bar>M ! m ! i\<bar>"
        using ih(3) le by (auto simp: less_Suc_eq)
      then show ?thesis
        unfolding step using le ih by simp
    qed
  qed
qed

lemma selectPivot_props:
  assumes "i < n"
  shows "i \<le> selectPivot M n i" "selectPivot M n i < n"
    "\<And>k. i \<le> k \<Longrightarrow> k < n \<Longrightarrow> \<bar>M ! k ! i\<bar> \<le> \<bar>M ! selectPivot M n i ! i\<bar>"
    "\<And>k. i \<le> k \<Longrightarrow> k < selectPivot M n i \<Longrightarrow> \<bar>M ! k ! i\<bar> < \<bar>M ! selectPivot M n i ! i\<bar>"
  using selectPivot_fold[OF assms, of M] unfolding selectPivot_def by simp_all

lemma swapRows_shape:
  "augmentedShape n M \<Longrightarrow> i < n \<Longrightarrow> m < n \<Longrightarrow> augmentedShape n (swapRows M i m)"
  by (auto simp: swapRows_def augmentedShape_def list_all_length nth_list_update)

lemma swapRows_nth:
  "length M = n \<Longrightarrow> i < n \<Longrightarrow> m < n \<Longrightarrow> k < n \<Longrightarrow>
   swapRows M i m ! k = (if k = i then M ! m else if k = m then M ! i else M ! k)"
  by (auto simp: swapRows_def nth_list_update)

lemma cell_update_shape:
  "augmentedShape n M \<Longrightarrow> augmentedShape n (M[r := (M ! r)[c := v]])"
  by (cases "r < length M") (auto simp: augmentedShape_def list_all_length nth_list_update)

lemma cell_update_nth:
  "augmentedShape n M \<Longrightarrow> r < n \<Longrightarrow> c \<le> n \<Longrightarrow> k < n \<Longrightarrow>
   M[r := (M ! r)[c := v]] ! k ! j = (if k = r \<and> j = c then v else M ! k ! j)"
  by (auto simp: augmentedShape_def list_all_length nth_list_update)

lemma normalize_fold:
  fixes M :: matrix
  assumes sh: "augmentedShape n M" and i: "i < n"
  shows "i \<le> b \<Longrightarrow> b \<le> Suc n \<Longrightarrow>
    augmentedShape n (foldl (\<lambda>aug j. aug[i := (aug ! i)[j := aug ! i ! j / p]]) M [i..<b]) \<and>
    (\<forall>k < n. \<forall>j.
       foldl (\<lambda>aug j. aug[i := (aug ! i)[j := aug ! i ! j / p]]) M [i..<b] ! k ! j =
         (if k = i \<and> i \<le> j \<and> j < b then M ! i ! j / p else M ! k ! j))"
proof (induction b)
  case 0
  then show ?case using sh by simp
next
  case (Suc b)
  show ?case
  proof (cases "i \<le> b")
    case False
    with Suc.prems have "Suc b = i" by simp
    then show ?thesis using sh by simp
  next
    case True
    define F where "F = foldl (\<lambda>aug j. aug[i := (aug ! i)[j := aug ! i ! j / p]]) M [i..<b]"
    from Suc.IH[OF True] Suc.prems
    have shF: "augmentedShape n F"
      and ent: "\<And>k j. k < n \<Longrightarrow> F ! k ! j = (if k = i \<and> i \<le> j \<and> j < b then M ! i ! j / p else M ! k ! j)"
      unfolding F_def by simp_all
    have step: "foldl (\<lambda>aug j. aug[i := (aug ! i)[j := aug ! i ! j / p]]) M [i..<Suc b] =
                F[i := (F ! i)[b := F ! i ! b / p]]"
      using True by (simp add: F_def)
    have b: "b \<le> n" using Suc.prems by simp
    show ?thesis
      unfolding step
      using cell_update_shape[OF shF] cell_update_nth[OF shF i b] ent i True
      by (auto simp: less_Suc_eq)
  qed
qed

lemma normalizeRow_shape:
  "augmentedShape n M \<Longrightarrow> i < n \<Longrightarrow> augmentedShape n (normalizeRow exact M n i)"
  using normalize_fold[of n M i "Suc n" "M ! i ! i"] by (simp add: normalizeRow_def Let_def)

lemma normalizeRow_nth:
  "augmentedShape n M \<Longrightarrow> i < n \<Longrightarrow> k < n \<Longrightarrow> j \<le> n \<Longrightarrow>
   normalizeRow exact M n i ! k ! j = (if k = i \<and> i \<le> j then M ! i ! j / M ! i ! i else M ! k ! j)"
  using normalize_fold[of n M i "Suc n" "M ! i ! i"] by (simp add: normalizeRow_def Let_def)

lemma eliminate_row_fold:
  fixes M :: matrix
  assumes sh: "augmentedShape n M" and i: "i < n" and r: "r < n" and ri: "r \<noteq> i"
  shows "i \<le> b \<Longrightarrow> b \<le> Suc n \<Longrightarrow>
    augmentedShape n (foldl (\<lambda>aug j. aug[r := (aug ! r)[j := aug ! r ! j - f * aug ! i ! j]]) M [i..<b]) \<and>
    (\<forall>k < n. \<forall>j.
       foldl (\<lambda>aug j. aug[r := (aug ! r)[j := aug ! r ! j - f * aug ! i ! j]]) M [i..<b] ! k ! j =
         (if k = r \<and> i \<le> j \<and> j < b then M ! r ! j - f * M ! i ! j else M ! k ! j))"
proof (induction b)
  case 0
  then show ?case using sh by simp
next
  case (Suc b)
  show ?case
  proof (cases "i \<le> b")
    case False
    with Suc.prems have "Suc b = i" by simp
    then show ?thesis using sh by simp
  next
    case True
    define F where "F = foldl (\<lambda>aug j. aug[r := (aug ! r)[j := aug ! r ! j - f * aug ! i ! j]]) M [i..<b]"
    from Suc.IH[OF True] Suc.prems
    have shF: "augmentedShape n F"
      and ent: "\<And>k j. k < n \<Longrightarrow> F ! k ! j = (if k = r \<and> i \<le> j \<and> j < b then M ! r ! j - f * M ! i ! j else M ! k ! j)"
      unfolding F_def by simp_all
    have step: "foldl (\<lambda>aug j. aug[r := (aug ! r)[j := aug ! r ! j - f * aug ! i ! j]]) M [i..<Suc b] =
                F[r := (F ! r)[b := F ! r ! b - f * F ! i ! b]]"
      using True by (simp add: F_def)
    have b: "b \<le> n" using Suc.prems by simp
    show ?thesis
      unfolding step
      using cell_update_shape[OF shF] cell_update_nth[OF shF r b] ent i r ri True
      by (auto simp: less_Suc_eq)
  qed
qed

lemma eliminate_fold:
  fixes M :: matrix
  assumes sh: "augmentedShape n M" and i: "i < n"
  shows "c \<le> n \<Longrightarrow>
    augmentedShape n
      (foldl (\<lambda>aug k. if k \<noteq> i then
                 (let factor = aug ! k ! i
                  in foldl (\<lambda>aug' j. aug'[k := (aug' ! k)[j := aug' ! k ! j - factor * aug' ! i ! j]])
                       aug [i..<n + 1])
               else aug) M [0..<c]) \<and>
    (\<forall>k < n. \<forall>j \<le> n.
       foldl (\<lambda>aug k. if k \<noteq> i then
                 (let factor = aug ! k ! i
                  in foldl (\<lambda>aug' j. aug'[k := (aug' ! k)[j := aug' ! k ! j - factor * aug' ! i ! j]])
                       aug [i..<n + 1])
               else aug) M [0..<c] ! k ! j =
         (if k < c \<and> k \<noteq> i \<and> i \<le> j then M ! k ! j - M ! k ! i * M ! i ! j else M ! k ! j))"
proof (induction c)
  case 0
  then show ?case using sh by simp
next
  case (Suc c)
  define G where "G = foldl (\<lambda>aug k. if k \<noteq> i then
                 (let factor = aug ! k ! i
                  in foldl (\<lambda>aug' j. aug'[k := (aug' ! k)[j := aug' ! k ! j - factor * aug' ! i ! j]])
                       aug [i..<n + 1])
               else aug) M [0..<c]"
  from Suc have c: "c < n" by simp
  from Suc.IH c
  have shG: "augmentedShape n G"
    and ent: "\<And>k j. k < n \<Longrightarrow> j \<le> n \<Longrightarrow>
       G ! k ! j = (if k < c \<and> k \<noteq> i \<and> i \<le> j then M ! k ! j - M ! k ! i * M ! i ! j else M ! k ! j)"
    unfolding G_def by simp_all
  have step: "foldl (\<lambda>aug k. if k \<noteq> i then
                 (let factor = aug ! k ! i
                  in foldl (\<lambda>aug' j. aug'[k := (aug' ! k)[j := aug' ! k ! j - factor * aug' ! i ! j]])
                       aug [i..<n + 1])
               else aug) M [0..<Suc c] =
      (if c \<noteq> i then
         foldl (\<lambda>aug' j. aug'[c := (aug' ! c)[j := aug' ! c ! j - G ! c ! i * aug' ! i ! j]]) G [i..<Suc n]
       else G)"
    by (simp add: G_def Let_def)
  show ?case
  proof (cases "c = i")
    case True
    then show ?thesis
      unfolding step using shG ent by (auto simp: less_Suc_eq)
  next
    case False
    have in1: "i \<le> Suc n" using i by simp
    note rowf = eliminate_row_fold[OF shG i c False in1 order_refl, of "G ! c ! i"]
    have gci: "G ! c ! i = M ! c ! i" using ent[OF c, of i] i by simp
    show ?thesis
      unfolding step using False rowf ent c i gci
      by (auto simp: less_Suc_eq)
  qed
qed

lemma eliminateColumn_shape:
  "augmentedShape n M \<Longrightarrow> i < n \<Longrightarrow> augmentedShape n (eliminateColumn exact M n i)"
  using eliminate_fold[of n M i n] unfolding eliminateColumn_def exact_def by simp

lemma eliminateColumn_nth:
  "augmentedShape n M \<Longrightarrow> i < n \<Longrightarrow> k < n \<Longrightarrow> j \<le> n \<Longrightarrow>
   eliminateColumn exact M n i ! k ! j =
     (if k \<noteq> i \<and> i \<le> j then M ! k ! j - M ! k ! i * M ! i ! j else M ! k ! j)"
  using eliminate_fold[of n M i n] unfolding eliminateColumn_def exact_def by simp

lemma swapRows_unitColumns:
  assumes "length M = n" "i < n" "m < n" "i \<le> m" "unitColumns n i M"
  shows "unitColumns n i (swapRows M i m)"
  using assms by (auto simp: unitColumns_def swapRows_nth)

lemma swapRows_solves:
  assumes "length M = n" "i < n" "m < n"
  shows "solvesAugmented n (swapRows M i m) x = solvesAugmented n M x"
proof
  assume l: "solvesAugmented n (swapRows M i m) x"
  show "solvesAugmented n M x"
    unfolding solvesAugmented_def
  proof (intro allI impI)
    fix k assume k: "k < n"
    define k' where "k' = (if k = i then m else if k = m then i else k)"
    have k': "k' < n" using k assms by (simp add: k'_def)
    have "swapRows M i m ! k' = M ! k"
      using assms k k' by (auto simp: swapRows_nth k'_def)
    with l[unfolded solvesAugmented_def, rule_format, OF k']
    show "(\<Sum>j<n. M ! k ! j * x j) = M ! k ! n" by simp
  qed
next
  assume r: "solvesAugmented n M x"
  show "solvesAugmented n (swapRows M i m) x"
    unfolding solvesAugmented_def
  proof (intro allI impI)
    fix k assume k: "k < n"
    define k' where "k' = (if k = i then m else if k = m then i else k)"
    have k': "k' < n" using k assms by (simp add: k'_def)
    have "swapRows M i m ! k = M ! k'"
      using assms k by (auto simp: swapRows_nth k'_def)
    with r[unfolded solvesAugmented_def, rule_format, OF k']
    show "(\<Sum>j<n. swapRows M i m ! k ! j * x j) = swapRows M i m ! k ! n" by simp
  qed
qed

text \<open>One round on a swapped matrix \<open>S\<close> whose pivot is not zero.\<close>

lemma round_entries:
  assumes sh: "augmentedShape n S" and i: "i < n" and u: "unitColumns n i S"
    and k: "k < n" and j: "j \<le> n"
  shows "eliminateColumn exact (normalizeRow exact S n i) n i ! k ! j =
           (if k = i then S ! i ! j / S ! i ! i
            else S ! k ! j - S ! k ! i * (S ! i ! j / S ! i ! i))"
proof -
  have z: "S ! i ! j = 0" if "j < i"
    using u that i by (simp add: unitColumns_def)
  show ?thesis
    using z i k j
    by (simp add: eliminateColumn_nth[OF normalizeRow_shape[OF sh i] i k j]
          normalizeRow_nth[OF sh i] not_le)
qed

lemma round_unitColumns:
  assumes sh: "augmentedShape n S" and i: "i < n" and u: "unitColumns n i S"
    and p: "S ! i ! i \<noteq> 0"
  shows "unitColumns n (Suc i) (eliminateColumn exact (normalizeRow exact S n i) n i)"
  unfolding unitColumns_def
proof (intro allI impI)
  fix c k assume c: "c < Suc i" and k: "k < n"
  have cn: "c \<le> n" using c i by simp
  note e = round_entries[OF sh i u k cn]
  show "eliminateColumn exact (normalizeRow exact S n i) n i ! k ! c = (if k = c then 1 else 0)"
  proof (cases "c = i")
    case True
    show ?thesis
      unfolding e using p True by simp
  next
    case False
    with c have ci: "c < i" by simp
    have "S ! i ! c = 0" "S ! k ! c = (if k = c then 1 else 0)"
      using u ci i k by (simp_all add: unitColumns_def)
    then show ?thesis
      unfolding e using ci by auto
  qed
qed

lemma round_solves:
  assumes sh: "augmentedShape n S" and i: "i < n" and u: "unitColumns n i S"
    and p: "S ! i ! i \<noteq> 0"
  shows "solvesAugmented n (eliminateColumn exact (normalizeRow exact S n i) n i) x = solvesAugmented n S x"
proof -
  define E where "E = eliminateColumn exact (normalizeRow exact S n i) n i"
  define pv where "pv = S ! i ! i"
  have pv: "pv \<noteq> 0" using p by (simp add: pv_def)
  have ent: "E ! k ! j = (if k = i then S ! i ! j / pv else S ! k ! j - S ! k ! i * (S ! i ! j / pv))"
    if "k < n" "j \<le> n" for k j
    using round_entries[OF sh i u that] by (simp add: E_def pv_def)
  have rowi: "(\<Sum>j<n. E ! i ! j * x j) = (\<Sum>j<n. S ! i ! j * x j) / pv"
  proof -
    have "(\<Sum>j<n. E ! i ! j * x j) = (\<Sum>j<n. (S ! i ! j * x j) / pv)"
      by (rule sum.cong) (simp_all add: ent[OF i])
    then show ?thesis by (simp add: sum_divide_distrib)
  qed
  have rowk: "(\<Sum>j<n. E ! k ! j * x j) =
              (\<Sum>j<n. S ! k ! j * x j) - S ! k ! i * ((\<Sum>j<n. S ! i ! j * x j) / pv)"
    if "k < n" "k \<noteq> i" for k
  proof -
    have "(\<Sum>j<n. E ! k ! j * x j) = (\<Sum>j<n. S ! k ! j * x j - S ! k ! i * ((S ! i ! j * x j) / pv))"
      by (rule sum.cong) (simp_all add: ent[OF that(1)] that(2) algebra_simps)
    also have "\<dots> = (\<Sum>j<n. S ! k ! j * x j) - (\<Sum>j<n. S ! k ! i * ((S ! i ! j * x j) / pv))"
      by (simp only: sum_subtractf)
    also have "(\<Sum>j<n. S ! k ! i * ((S ! i ! j * x j) / pv)) = S ! k ! i * (\<Sum>j<n. (S ! i ! j * x j) / pv)"
      by (simp only: sum_distrib_left)
    also have "(\<Sum>j<n. (S ! i ! j * x j) / pv) = (\<Sum>j<n. S ! i ! j * x j) / pv"
      by (simp only: sum_divide_distrib)
    finally show ?thesis .
  qed
  have rhsi: "E ! i ! n = S ! i ! n / pv" using ent[OF i, of n] by simp
  have rhsk: "E ! k ! n = S ! k ! n - S ! k ! i * (S ! i ! n / pv)" if "k < n" "k \<noteq> i" for k
    using ent[OF that(1), of n] that(2) by simp
  show ?thesis
    unfolding E_def[symmetric]
  proof
    assume e: "solvesAugmented n E x"
    have ei: "(\<Sum>j<n. S ! i ! j * x j) = S ! i ! n"
      using e[unfolded solvesAugmented_def, rule_format, OF i] rowi rhsi pv by simp
    show "solvesAugmented n S x"
      unfolding solvesAugmented_def
    proof (intro allI impI)
      fix k assume k: "k < n"
      show "(\<Sum>j<n. S ! k ! j * x j) = S ! k ! n"
      proof (cases "k = i")
        case True
        then show ?thesis using ei by simp
      next
        case False
        from e[unfolded solvesAugmented_def, rule_format, OF k] rowk[OF k False] rhsk[OF k False] ei
        show ?thesis by simp
      qed
    qed
  next
    assume s: "solvesAugmented n S x"
    have si: "(\<Sum>j<n. S ! i ! j * x j) = S ! i ! n"
      using s[unfolded solvesAugmented_def, rule_format, OF i] .
    show "solvesAugmented n E x"
      unfolding solvesAugmented_def
    proof (intro allI impI)
      fix k assume k: "k < n"
      show "(\<Sum>j<n. E ! k ! j * x j) = E ! k ! n"
      proof (cases "k = i")
        case True
        then show ?thesis using rowi rhsi si by simp
      next
        case False
        from s[unfolded solvesAugmented_def, rule_format, OF k] rowk[OF k False] rhsk[OF k False] si
        show ?thesis by simp
      qed
    qed
  qed
qed

lemma forwardElimination_done: "\<not> i < n \<Longrightarrow> forwardElimination rnd n i M = Some M"
  by (subst forwardElimination.simps) simp

lemma forwardElimination_round:
  "i < n \<Longrightarrow>
   forwardElimination rnd n i M =
     (if \<bar>pivotAfterSwap n i M\<bar> < pivotTolerance rnd then None
      else forwardElimination rnd n (i + 1) (eliminationRound rnd n i M))"
  by (subst forwardElimination.simps) (simp add: pivotAfterSwap_def eliminationRound_def Let_def)

lemma eliminationRound_invariant:
  assumes sh: "augmentedShape n M" and i: "i < n" and u: "unitColumns n i M"
    and p: "pivotAfterSwap n i M \<noteq> 0"
  shows "augmentedShape n (eliminationRound exact n i M)"
    "unitColumns n (Suc i) (eliminationRound exact n i M)"
    "solvesAugmented n (eliminationRound exact n i M) x = solvesAugmented n M x"
proof -
  define m where "m = selectPivot M n i"
  define S where "S = swapRows M i m"
  have m: "i \<le> m" "m < n" using selectPivot_props(1,2)[OF i, of M] by (simp_all add: m_def)
  have len: "length M = n" using sh by (rule augmentedShape_length)
  have shS: "augmentedShape n S" unfolding S_def by (rule swapRows_shape[OF sh i m(2)])
  have uS: "unitColumns n i S" unfolding S_def by (rule swapRows_unitColumns[OF len i m(2) m(1) u])
  have pS: "S ! i ! i \<noteq> 0" using p by (simp add: pivotAfterSwap_def S_def m_def)
  have E: "eliminationRound exact n i M = eliminateColumn exact (normalizeRow exact S n i) n i"
    by (simp add: eliminationRound_def S_def m_def)
  show "augmentedShape n (eliminationRound exact n i M)"
    unfolding E by (rule eliminateColumn_shape[OF normalizeRow_shape[OF shS i] i])
  show "unitColumns n (Suc i) (eliminationRound exact n i M)"
    unfolding E by (rule round_unitColumns[OF shS i uS pS])
  show "solvesAugmented n (eliminationRound exact n i M) x = solvesAugmented n M x"
    unfolding E using round_solves[OF shS i uS pS, of x] swapRows_solves[OF len i m(2), of x]
    by (simp add: S_def)
qed

lemma forwardElimination_correct:
  "augmentedShape n M \<Longrightarrow> i \<le> n \<Longrightarrow> unitColumns n i M \<Longrightarrow> forwardElimination exact n i M = Some R \<Longrightarrow>
   augmentedShape n R \<and> unitColumns n n R \<and> (\<forall>x. solvesAugmented n R x = solvesAugmented n M x)"
proof (induction "n - i" arbitrary: i M)
  case 0
  then have "i = n" by simp
  with 0 show ?case by (simp add: forwardElimination_done)
next
  case (Suc d)
  then have i: "i < n" by simp
  from Suc.prems(4) have nz: "\<not> \<bar>pivotAfterSwap n i M\<bar> < pivotTolerance exact"
    and rec: "forwardElimination exact n (Suc i) (eliminationRound exact n i M) = Some R"
    by (simp_all add: forwardElimination_round[OF i] split: if_splits)
  from nz have p: "pivotAfterSwap n i M \<noteq> 0" by auto
  note inv = eliminationRound_invariant[OF Suc.prems(1) i Suc.prems(3) p]
  have d: "d = n - Suc i" using Suc.hyps(2) by simp
  from Suc.hyps(1)[OF d inv(1) _ inv(2) rec] i inv(3)
  show ?case by simp
qed

lemma forwardElimination_None:
  "(forwardElimination rnd n i M = None) =
   (\<exists>d. i + d < n \<and> \<bar>pivotAfterSwap n (i + d) (roundsFrom rnd n i M d)\<bar> < pivotTolerance rnd)"
proof (induction "n - i" arbitrary: i M)
  case 0
  then show ?case by (simp add: forwardElimination_done)
next
  case (Suc e)
  then have i: "i < n" by simp
  have e: "e = n - Suc i" using Suc.hyps(2) by simp
  show ?case
  proof (cases "\<bar>pivotAfterSwap n i M\<bar> < pivotTolerance rnd")
    case True
    have "i + 0 < n \<and> \<bar>pivotAfterSwap n (i + 0) (roundsFrom rnd n i M 0)\<bar> < pivotTolerance rnd"
      using True i by simp
    then have "\<exists>d. i + d < n \<and> \<bar>pivotAfterSwap n (i + d) (roundsFrom rnd n i M d)\<bar> < pivotTolerance rnd"
      by blast
    with True i show ?thesis by (simp add: forwardElimination_round)
  next
    case False
    have "(\<exists>d. i + d < n \<and> \<bar>pivotAfterSwap n (i + d) (roundsFrom rnd n i M d)\<bar> < pivotTolerance rnd) =
          (\<exists>d. Suc i + d < n \<and>
               \<bar>pivotAfterSwap n (Suc i + d) (roundsFrom rnd n (Suc i) (eliminationRound rnd n i M) d)\<bar> < pivotTolerance rnd)"
      (is "?L = ?R")
    proof
      assume ?L
      then obtain d where d: "i + d < n" "\<bar>pivotAfterSwap n (i + d) (roundsFrom rnd n i M d)\<bar> < pivotTolerance rnd"
        by blast
      with False obtain d' where "d = Suc d'" by (cases d) auto
      with d show ?R by auto
    next
      assume ?R
      then obtain d where "Suc i + d < n"
        "\<bar>pivotAfterSwap n (Suc i + d) (roundsFrom rnd n (Suc i) (eliminationRound rnd n i M) d)\<bar> < pivotTolerance rnd"
        by blast
      then have "i + Suc d < n \<and> \<bar>pivotAfterSwap n (i + Suc d) (roundsFrom rnd n i M (Suc d))\<bar> < pivotTolerance rnd"
        by simp
      then show ?L by blast
    qed
    with False i Suc.hyps(1)[OF e, of "eliminationRound rnd n i M"] show ?thesis
      by (simp add: forwardElimination_round)
  qed
qed

lemma augmentedMatrix_nth:
  "k < length A \<Longrightarrow> augmentedMatrix A B ! k = A ! k @ [B ! k]"
  by (simp add: augmentedMatrix_def)

lemma augmentedMatrix_shape:
  "squareMatrix A \<Longrightarrow> augmentedShape (length A) (augmentedMatrix A B)"
  by (rule augmentedShapeI)
     (simp_all add: augmentedMatrix_def squareMatrix_def list_all_length)

lemma augmentedMatrix_entry:
  "squareMatrix A \<Longrightarrow> k < length A \<Longrightarrow>
   augmentedMatrix A B ! k ! j = (if j < length A then A ! k ! j else if j = length A then B ! k else [] ! (j - Suc (length A)))"
  by (auto simp: augmentedMatrix_nth squareMatrix_def list_all_length nth_append)

lemma augmentedMatrix_solves:
  assumes "squareMatrix A"
  shows "solvesAugmented (length A) (augmentedMatrix A B) x =
         (\<forall>k < length A. (\<Sum>j < length A. A ! k ! j * x j) = B ! k)"
proof -
  have "(\<Sum>j < length A. augmentedMatrix A B ! k ! j * x j) = (\<Sum>j < length A. A ! k ! j * x j)"
    if "k < length A" for k
    by (rule sum.cong) (simp_all add: augmentedMatrix_entry[OF assms that])
  then show ?thesis
    by (simp add: solvesAugmented_def augmentedMatrix_entry[OF assms])
qed

lemma unit_solves:
  assumes "unitColumns n n R"
  shows "solvesAugmented n R x = (\<forall>k < n. x k = R ! k ! n)"
proof -
  have "(\<Sum>j < n. R ! k ! j * x j) = x k" if k: "k < n" for k
  proof -
    have "(\<Sum>j < n. R ! k ! j * x j) = (\<Sum>j \<in> {..<n}. if j = k then x j else 0)"
      by (rule sum.cong) (use assms k in \<open>auto simp: unitColumns_def\<close>)
    also have "\<dots> = x k" using k by simp
    finally show ?thesis .
  qed
  then show ?thesis by (simp add: solvesAugmented_def)
qed

lemma solvesSystem_iff:
  "solvesSystem A B x =
     (length x = length A \<and> (\<forall>k < length A. (\<Sum>j < length A. A ! k ! j * x ! j) = B ! k))"
  by (auto simp: solvesSystem_def list_all_iff)

lemma gaussJordan_solution:
  assumes sq: "squareMatrix A" and len: "length B = length A"
    and res: "gaussJordan exact (Some A) (Some B) = Some x"
  shows "solvesSystem A B x" "\<And>y. solvesSystem A B y \<Longrightarrow> y = x"
proof -
  define n where "n = length A"
  from res len obtain R where R: "forwardElimination exact n 0 (augmentedMatrix A B) = Some R"
    and x: "x = map (\<lambda>row. row ! n) R"
    by (auto simp: gaussJordan_def n_def Let_def split: option.splits)
  have sh: "augmentedShape n (augmentedMatrix A B)"
    unfolding n_def by (rule augmentedMatrix_shape[OF sq])
  have u0: "unitColumns n 0 (augmentedMatrix A B)" by (simp add: unitColumns_def)
  from forwardElimination_correct[OF sh _ u0 R]
  have shR: "augmentedShape n R" and uR: "unitColumns n n R"
    and eq: "\<And>v. solvesAugmented n R v = solvesAugmented n (augmentedMatrix A B) v"
    by simp_all
  have lx: "length x = n" using shR by (simp add: x augmentedShape_length)
  have xk: "x ! k = R ! k ! n" if "k < n" for k
    using that shR by (simp add: x augmentedShape_length)
  have sol: "solvesAugmented n (augmentedMatrix A B) v = (\<forall>k < n. v k = x ! k)" for v
    using eq[of v] unit_solves[OF uR, of v] xk by simp
  have "solvesAugmented n (augmentedMatrix A B) (\<lambda>j. x ! j)"
    by (simp add: sol)
  then show "solvesSystem A B x"
    using lx by (simp add: solvesSystem_iff augmentedMatrix_solves[OF sq] n_def)
  fix y assume y: "solvesSystem A B y"
  then have "solvesAugmented n (augmentedMatrix A B) (\<lambda>j. y ! j)"
    by (simp add: solvesSystem_iff augmentedMatrix_solves[OF sq] n_def)
  then have "\<forall>k < n. y ! k = x ! k" by (simp add: sol)
  moreover have "length y = n" using y by (simp add: solvesSystem_iff n_def)
  ultimately show "y = x" using lx by (auto intro: nth_equalityI)
qed

lemma gaussJordan_None:
  "(gaussJordan rnd (Some A) (Some B) = None) =
   (length A \<noteq> length B \<or>
    (\<exists>i < length A. \<bar>pivotAfterSwap (length A) i (roundsFrom rnd (length A) 0 (augmentedMatrix A B) i)\<bar> < pivotTolerance rnd))"
  using forwardElimination_None[of rnd "length A" 0 "augmentedMatrix A B"]
  by (auto simp: gaussJordan_def Let_def split: option.splits)



lemmas solverEval = gaussJordan_def forwardElimination_round forwardElimination_done
  pivotAfterSwap_def eliminationRound_def selectPivot_def swapRows_def normalizeRow_def
  eliminateColumn_def augmentedMatrix_def upt_conv_Cons Let_def


section \<open>The linear solver in double arithmetic\<close>

lemma gaussJordan_exact_regular:
  "gaussJordan exact (Some [[2, 1], [1, 3]]) (Some [3, 5]) = Some [4 / 5, 7 / 5]"
  by (simp add: solverEval)

lemma gaussJordan_double_regular:
  "gaussJordan roundToDouble (Some [[2, 1], [1, 3]]) (Some [3, 5]) =
     Some [3602879701896397 / 4503599627370496, 3152519739159347 / 2251799813685248]"
  by (simp add: solverEval pivotTolerance_double doubleEval)

lemma roundToDouble_1: "roundToDouble 1 = 1"
  by (simp add: doubleEval Let_def)

lemma roundToDouble_2: "roundToDouble 2 = 2"
  by (simp add: doubleEval Let_def)

lemma gaussJordan_double_singular:
  "gaussJordan roundToDouble (Some [[1, 2], [2, 4]]) (Some [b1, b2]) = None"
  by (simp add: solverEval pivotTolerance_double roundToDouble_0 roundToDouble_1 roundToDouble_2)

lemma gaussJordan_double_swap:
  "gaussJordan roundToDouble (Some [[0, 1], [1, 0]]) (Some [2, 3]) = Some [3, 2]"
  by (simp add: solverEval pivotTolerance_double doubleEval)

lemma gaussJordan_double_residue:
  "gaussJordan roundToDouble (Some [[11, 12345678], [22, 24691356]]) (Some [1, 1]) =
     Some [- 301274336687197, 268435456]"
  by (simp add: solverEval pivotTolerance_double doubleEval)



section \<open>The affine estimator\<close>

lemma six_updates:
  "length xs = 6 \<Longrightarrow> xs[0 := a, 1 := b, 2 := c, 3 := d, 4 := e, 5 := f] = [a, b, c, d, e, f]"
  by (auto simp: numeral_eq_Suc length_Suc_conv)

lemma setEntry_row:
  "r < length A \<Longrightarrow>
   setEntry (setEntry (setEntry (setEntry (setEntry (setEntry A r 0 a) r 1 b) r 2 c) r 3 d) r 4 e) r 5 f =
   A[r := (A ! r)[0 := a, 1 := b, 2 := c, 3 := d, 4 := e, 5 := f]]"
  by (simp add: setEntry_def)

lemma fillEquations_closed:
  assumes "Suc (2 * i) < length A" "length (A ! (2 * i)) = 6" "length (A ! Suc (2 * i)) = 6"
  shows "fillEquations cps (A, B) i =
           (A[2 * i := equationRowX (cps ! i), Suc (2 * i) := equationRowY (cps ! i)],
            B[2 * i := lonToWebMercatorX (gps_lng (cp_gpsPoint (cps ! i))),
              Suc (2 * i) := latToWebMercatorY (gps_lat (cp_gpsPoint (cps ! i)))])"
proof -
  have r0: "2 * i < length A" using assms(1) by simp
  have r1: "Suc (2 * i) < length (A[2 * i := v])" for v using assms(1) by simp
  have n1: "A[2 * i := v] ! Suc (2 * i) = A ! Suc (2 * i)" for v by simp
  show ?thesis
    unfolding fillEquations_def Let_def fst_conv snd_conv
    by (simp only: mult.commute[of i 2] add_Suc_right[symmetric] Suc_eq_plus1[symmetric]
          setEntry_row[OF r0] setEntry_row[OF r1] n1 six_updates[OF assms(2)] six_updates[OF assms(3)]
          equationRowX_def equationRowY_def)
qed

lemma designInvariant_step:
  assumes inv: "designInvariant cps m AB" and m: "m < length cps"
  shows "designInvariant cps (Suc m) (fillEquations cps AB m)"
proof -
  obtain A B where AB: "AB = (A, B)" by (cases AB)
  from inv have lA: "length A = 2 * length cps" and lB: "length B = 2 * length cps"
    and rows: "\<And>r. r < 2 * length cps \<Longrightarrow> length (A ! r) = 6"
    and old: "\<And>i. i < m \<Longrightarrow> A ! (2 * i) = equationRowX (cps ! i) \<and>
                A ! Suc (2 * i) = equationRowY (cps ! i) \<and>
                B ! (2 * i) = lonToWebMercatorX (gps_lng (cp_gpsPoint (cps ! i))) \<and>
                B ! Suc (2 * i) = latToWebMercatorY (gps_lat (cp_gpsPoint (cps ! i)))"
    by (simp_all add: designInvariant_def AB)
  have r: "Suc (2 * m) < length A" using m lA by simp
  have r': "Suc (2 * m) < 2 * length cps" "2 * m < 2 * length cps" using m by simp_all
  note closed = fillEquations_closed[OF r rows[OF r'(2)] rows[OF r'(1)], of cps B]
  have len6: "length (equationRowX cp) = 6" "length (equationRowY cp) = 6" for cp
    by (simp_all add: equationRowX_def equationRowY_def)
  show ?thesis
    unfolding AB closed designInvariant_def fst_conv snd_conv
  proof (intro conjI allI impI)
    show "length (A[2 * m := equationRowX (cps ! m), Suc (2 * m) := equationRowY (cps ! m)]) = 2 * length cps"
      using lA by simp
    show "length (B[2 * m := lonToWebMercatorX (gps_lng (cp_gpsPoint (cps ! m))),
                   Suc (2 * m) := latToWebMercatorY (gps_lat (cp_gpsPoint (cps ! m)))]) = 2 * length cps"
      using lB by simp
  next
    fix q assume "q < 2 * length cps"
    then show "length (A[2 * m := equationRowX (cps ! m), Suc (2 * m) := equationRowY (cps ! m)] ! q) = 6"
      using lA rows len6 m by (simp add: nth_list_update)
  next
    fix i assume i: "i < Suc m"
    have ne: "i \<noteq> m \<Longrightarrow> 2 * i \<noteq> 2 * m \<and> 2 * i \<noteq> Suc (2 * m) \<and> Suc (2 * i) \<noteq> 2 * m" by presburger
    have in_range: "2 * i < length A" "Suc (2 * i) < length A" "2 * i < length B" "Suc (2 * i) < length B"
      using i m lA lB by simp_all
    show "A[2 * m := equationRowX (cps ! m), Suc (2 * m) := equationRowY (cps ! m)] ! (2 * i) =
          equationRowX (cps ! i)"
      using old[of i] i ne in_range by (cases "i = m") (simp_all add: nth_list_update)
    show "A[2 * m := equationRowX (cps ! m), Suc (2 * m) := equationRowY (cps ! m)] ! Suc (2 * i) =
          equationRowY (cps ! i)"
      using old[of i] i ne in_range by (cases "i = m") (simp_all add: nth_list_update)
    show "B[2 * m := lonToWebMercatorX (gps_lng (cp_gpsPoint (cps ! m))),
            Suc (2 * m) := latToWebMercatorY (gps_lat (cp_gpsPoint (cps ! m)))] ! (2 * i) =
          lonToWebMercatorX (gps_lng (cp_gpsPoint (cps ! i)))"
      using old[of i] i ne in_range by (cases "i = m") (simp_all add: nth_list_update)
    show "B[2 * m := lonToWebMercatorX (gps_lng (cp_gpsPoint (cps ! m))),
            Suc (2 * m) := latToWebMercatorY (gps_lat (cp_gpsPoint (cps ! m)))] ! Suc (2 * i) =
          latToWebMercatorY (gps_lat (cp_gpsPoint (cps ! i)))"
      using old[of i] i ne in_range by (cases "i = m") (simp_all add: nth_list_update)
  qed
qed

lemma designInvariant_fold:
  "m \<le> length cps \<Longrightarrow>
   designInvariant cps m
     (foldl (fillEquations cps)
        (replicate (2 * length cps) (replicate 6 0), replicate (2 * length cps) 0) [0..<m])"
proof (induction m)
  case 0
  show ?case by (simp add: designInvariant_def)
next
  case (Suc m)
  then show ?case
    using designInvariant_step[of cps m] by simp
qed

lemma designSystem_invariant: "designInvariant cps (length cps) (designSystem cps)"
  using designInvariant_fold[of "length cps" cps] by (simp add: designSystem_def Let_def)

lemma rect_update:
  "rectangular p s R \<Longrightarrow> rectangular p s (R[r := (R ! r)[c := v]])"
  by (cases "r < length R") (auto simp: rectangular_def nth_list_update)

lemma rect_update_nth:
  "rectangular p s R \<Longrightarrow> r < p \<Longrightarrow> c < s \<Longrightarrow> k < p \<Longrightarrow>
   R[r := (R ! r)[c := v]] ! k ! j = (if k = r \<and> j = c then v else R ! k ! j)"
  by (auto simp: rectangular_def nth_list_update)

lemma mul_k:
  fixes res :: matrix
  assumes re: "rectangular p s res" and i: "i < p" and j: "j < s"
  shows "rectangular p s
      (foldl (\<lambda>res k. res[i := (res ! i)[j := rnd (res ! i ! j + rnd (a k))]]) res [0..<b]) \<and>
    (\<forall>i' < p. \<forall>j'.
       foldl (\<lambda>res k. res[i := (res ! i)[j := rnd (res ! i ! j + rnd (a k))]]) res [0..<b] ! i' ! j' =
         (if i' = i \<and> j' = j then foldl (\<lambda>s k. rnd (s + rnd (a k))) (res ! i ! j) [0..<b]
          else res ! i' ! j'))"
proof (induction b)
  case 0
  show ?case using re by simp
next
  case (Suc b)
  define F where "F = foldl (\<lambda>res k. res[i := (res ! i)[j := rnd (res ! i ! j + rnd (a k))]]) res [0..<b]"
  from Suc have rF: "rectangular p s F"
    and ent: "\<And>i' j'. i' < p \<Longrightarrow> F ! i' ! j' =
                (if i' = i \<and> j' = j then foldl (\<lambda>s k. rnd (s + rnd (a k))) (res ! i ! j) [0..<b]
                 else res ! i' ! j')"
    unfolding F_def by simp_all
  have step: "foldl (\<lambda>res k. res[i := (res ! i)[j := rnd (res ! i ! j + rnd (a k))]]) res [0..<Suc b] =
              F[i := (F ! i)[j := rnd (F ! i ! j + rnd (a b))]]"
    by (simp add: F_def)
  show ?case
    unfolding step
    using rect_update[OF rF] rect_update_nth[OF rF i j] ent i
    by auto
qed

lemma mul_j:
  fixes res :: matrix
  assumes re: "rectangular p s res" and i: "i < p"
  shows "c \<le> s \<Longrightarrow>
    rectangular p s
      (foldl (\<lambda>res j. foldl (\<lambda>res k. res[i := (res ! i)[j := rnd (res ! i ! j + rnd (a j k))]]) res [0..<q])
         res [0..<c]) \<and>
    (\<forall>i' < p. \<forall>j'.
       foldl (\<lambda>res j. foldl (\<lambda>res k. res[i := (res ! i)[j := rnd (res ! i ! j + rnd (a j k))]]) res [0..<q])
         res [0..<c] ! i' ! j' =
         (if i' = i \<and> j' < c then foldl (\<lambda>s k. rnd (s + rnd (a j' k))) (res ! i ! j') [0..<q]
          else res ! i' ! j'))"
proof (induction c)
  case 0
  show ?case using re by simp
next
  case (Suc c)
  define G where "G = foldl (\<lambda>res j. foldl (\<lambda>res k. res[i := (res ! i)[j := rnd (res ! i ! j + rnd (a j k))]]) res [0..<q])
         res [0..<c]"
  from Suc have c: "c < s" by simp
  from Suc have rG: "rectangular p s G"
    and ent: "\<And>i' j'. i' < p \<Longrightarrow> G ! i' ! j' =
                (if i' = i \<and> j' < c then foldl (\<lambda>s k. rnd (s + rnd (a j' k))) (res ! i ! j') [0..<q]
                 else res ! i' ! j')"
    unfolding G_def by simp_all
  have step: "foldl (\<lambda>res j. foldl (\<lambda>res k. res[i := (res ! i)[j := rnd (res ! i ! j + rnd (a j k))]]) res [0..<q])
         res [0..<Suc c] =
       foldl (\<lambda>res k. res[i := (res ! i)[c := rnd (res ! i ! c + rnd (a c k))]]) G [0..<q]"
    by (simp add: G_def)
  show ?case
    unfolding step
    using mul_k[OF rG i c, of rnd "a c" q] ent i
    by (auto simp: less_Suc_eq)
qed

lemma mul_i:
  fixes res :: matrix
  assumes re: "rectangular p s res"
  shows "d \<le> p \<Longrightarrow>
    rectangular p s
      (foldl (\<lambda>res i.
         foldl (\<lambda>res j. foldl (\<lambda>res k. res[i := (res ! i)[j := rnd (res ! i ! j + rnd (a i j k))]]) res [0..<q])
           res [0..<s]) res [0..<d]) \<and>
    (\<forall>i' < p. \<forall>j' < s.
       foldl (\<lambda>res i.
         foldl (\<lambda>res j. foldl (\<lambda>res k. res[i := (res ! i)[j := rnd (res ! i ! j + rnd (a i j k))]]) res [0..<q])
           res [0..<s]) res [0..<d] ! i' ! j' =
         (if i' < d then foldl (\<lambda>s k. rnd (s + rnd (a i' j' k))) (res ! i' ! j') [0..<q]
          else res ! i' ! j'))"
proof (induction d)
  case 0
  show ?case using re by simp
next
  case (Suc d)
  define H where "H = foldl (\<lambda>res i.
         foldl (\<lambda>res j. foldl (\<lambda>res k. res[i := (res ! i)[j := rnd (res ! i ! j + rnd (a i j k))]]) res [0..<q])
           res [0..<s]) res [0..<d]"
  from Suc have d: "d < p" by simp
  from Suc have rH: "rectangular p s H"
    and ent: "\<And>i' j'. i' < p \<Longrightarrow> j' < s \<Longrightarrow> H ! i' ! j' =
                (if i' < d then foldl (\<lambda>s k. rnd (s + rnd (a i' j' k))) (res ! i' ! j') [0..<q]
                 else res ! i' ! j')"
    unfolding H_def by simp_all
  have step: "foldl (\<lambda>res i.
         foldl (\<lambda>res j. foldl (\<lambda>res k. res[i := (res ! i)[j := rnd (res ! i ! j + rnd (a i j k))]]) res [0..<q])
           res [0..<s]) res [0..<Suc d] =
       foldl (\<lambda>res j. foldl (\<lambda>res k. res[d := (res ! d)[j := rnd (res ! d ! j + rnd (a d j k))]]) res [0..<q])
           H [0..<s]"
    by (simp add: H_def)
  show ?case
    unfolding step
    using mul_j[OF rH d order_refl, of rnd "a d" q] ent d
    by (auto simp: less_Suc_eq)
qed

lemma multiply_closed:
  assumes "P \<noteq> []" "Q \<noteq> []" "length (P ! 0) = length Q"
  shows "\<exists>R. multiply rnd (Some P) (Some Q) = Some R \<and> rectangular (length P) (length (Q ! 0)) R \<and>
             (\<forall>i < length P. \<forall>j < length (Q ! 0).
                R ! i ! j = roundedSum rnd (\<lambda>k. P ! i ! k * Q ! k ! j) (length Q))"
proof -
  have z: "rectangular (length P) (length (Q ! 0)) (replicate (length P) (replicate (length (Q ! 0)) 0))"
    by (simp add: rectangular_def)
  from mul_i[OF z order_refl, of rnd "\<lambda>i j k. P ! i ! k * Q ! k ! j" "length Q"] assms
  show ?thesis
    by (simp add: multiply_def Let_def roundedSum_def)
qed

lemma foldl_zip_sum:
  fixes V :: vec
  shows "foldl (\<lambda>sum vi. rnd (sum + rnd (fst vi * V ! snd vi))) s0 (zip row [0..<length row]) =
         foldl (\<lambda>s k. rnd (s + rnd (row ! k * V ! k))) s0 [0..<length row]"
proof (induction row rule: rev_induct)
  case Nil
  show ?case by simp
next
  case (snoc x xs)
  have "foldl (\<lambda>s k. rnd (s + rnd ((xs @ [x]) ! k * V ! k))) s0 [0..<length xs] =
        foldl (\<lambda>s k. rnd (s + rnd (xs ! k * V ! k))) s0 [0..<length xs]"
    by (rule foldl_cong) (simp_all add: nth_append)
  with snoc show ?case by (simp add: nth_append)
qed

lemma roundedSum_cong:
  "(\<And>k. k < m \<Longrightarrow> f k = g k) \<Longrightarrow> roundedSum rnd f m = roundedSum rnd g m"
  unfolding roundedSum_def by (rule foldl_cong) simp_all

lemma roundedSum_exact: "roundedSum exact f m = (\<Sum>k < m. f k)"
  by (induction m) (simp_all add: roundedSum_def)

lemma transposeM_closed:
  assumes "A \<noteq> []"
  shows "transposeM (Some A) = Some (map (\<lambda>c. map (\<lambda>row. row ! c) A) [0..<length (A ! 0)])"
  using assms by (simp add: transposeM_def)

lemma designSystem_rows:
  shows "length (fst (designSystem cps)) = 2 * length cps"
    and "length (snd (designSystem cps)) = 2 * length cps"
    and "r < 2 * length cps \<Longrightarrow> length (fst (designSystem cps) ! r) = 6"
    and "i < length cps \<Longrightarrow> fst (designSystem cps) ! (2 * i) = equationRowX (cps ! i)"
    and "i < length cps \<Longrightarrow> fst (designSystem cps) ! Suc (2 * i) = equationRowY (cps ! i)"
    and "i < length cps \<Longrightarrow>
         snd (designSystem cps) ! (2 * i) = lonToWebMercatorX (gps_lng (cp_gpsPoint (cps ! i)))"
    and "i < length cps \<Longrightarrow>
         snd (designSystem cps) ! Suc (2 * i) = latToWebMercatorY (gps_lat (cp_gpsPoint (cps ! i)))"
  using designSystem_invariant[of cps] by (simp_all add: designInvariant_def)

lemma normalMatrix_shape:
  "length (normalMatrix rnd A) = 6" "i < 6 \<Longrightarrow> length (normalMatrix rnd A ! i) = 6"
  "squareMatrix (normalMatrix rnd A)" "length (normalVector rnd A B) = 6"
  by (simp_all add: normalMatrix_def normalVector_def squareMatrix_def list_all_length)

lemma normal_equations:
  assumes ne: "cps \<noteq> []"
  shows "multiply rnd (transposeM (Some (fst (designSystem cps)))) (Some (fst (designSystem cps))) =
           Some (normalMatrix rnd (fst (designSystem cps)))"
    and "multiplyVector rnd (transposeM (Some (fst (designSystem cps)))) (Some (snd (designSystem cps))) =
           Inr (Some (normalVector rnd (fst (designSystem cps)) (snd (designSystem cps))))"
proof -
  define A where "A = fst (designSystem cps)"
  define B where "B = snd (designSystem cps)"
  define T where "T = map (\<lambda>c. map (\<lambda>row. row ! c) A) [0..<6]"
  have lA: "length A = 2 * length cps" and lB: "length B = 2 * length cps"
    and rows: "\<And>r. r < 2 * length cps \<Longrightarrow> length (A ! r) = 6"
    by (simp_all add: A_def B_def designSystem_rows)
  have pos: "0 < 2 * length cps" using ne by simp
  have Ane: "A \<noteq> []" using lA pos by auto
  have tr: "transposeM (Some A) = Some T"
    using transposeM_closed[OF Ane] rows[OF pos] by (simp add: T_def)
  have Tne: "T \<noteq> []" by (simp add: T_def)
  have T0: "length (T ! 0) = length A" by (simp add: T_def)
  have lT: "length T = 6" by (simp add: T_def)
  have Tent: "T ! i ! k = A ! k ! i" if "i < 6" "k < length A" for i k
    using that by (simp add: T_def)
  from multiply_closed[OF Tne Ane T0, of rnd] obtain R where R: "multiply rnd (Some T) (Some A) = Some R"
    and rR: "rectangular 6 6 R"
    and eR: "\<And>i j. i < 6 \<Longrightarrow> j < 6 \<Longrightarrow>
               R ! i ! j = roundedSum rnd (\<lambda>k. T ! i ! k * A ! k ! j) (length A)"
    using lT rows[OF pos] by auto
  have "R = normalMatrix rnd A"
  proof (rule nth_equalityI)
    show "length R = length (normalMatrix rnd A)"
      using rR by (simp add: rectangular_def normalMatrix_shape)
  next
    fix i assume "i < length R"
    then have i: "i < 6" using rR by (simp add: rectangular_def)
    show "R ! i = normalMatrix rnd A ! i"
    proof (rule nth_equalityI)
      show "length (R ! i) = length (normalMatrix rnd A ! i)"
        using rR i by (simp add: rectangular_def normalMatrix_shape)
    next
      fix j assume "j < length (R ! i)"
      then have j: "j < 6" using rR i by (simp add: rectangular_def)
      have "roundedSum rnd (\<lambda>k. T ! i ! k * A ! k ! j) (length A) =
            roundedSum rnd (\<lambda>k. A ! k ! i * A ! k ! j) (length A)"
        by (rule roundedSum_cong) (simp add: Tent[OF i])
      then show "R ! i ! j = normalMatrix rnd A ! i ! j"
        using i j by (simp add: eR normalMatrix_def)
    qed
  qed
  with R tr show "multiply rnd (transposeM (Some (fst (designSystem cps)))) (Some (fst (designSystem cps))) =
           Some (normalMatrix rnd (fst (designSystem cps)))"
    by (simp add: A_def)
  have rowsum: "foldl (\<lambda>sum vi. rnd (sum + rnd (fst vi * B ! snd vi))) 0 (zip (T ! i) [0..<length (T ! i)]) =
                roundedSum rnd (\<lambda>k. A ! k ! i * B ! k) (length A)" if "i < 6" for i
  proof -
    have l: "length (T ! i) = length A" using that by (simp add: T_def)
    have "roundedSum rnd (\<lambda>k. T ! i ! k * B ! k) (length A) =
          roundedSum rnd (\<lambda>k. A ! k ! i * B ! k) (length A)"
      by (rule roundedSum_cong) (simp add: Tent[OF that])
    then show ?thesis
      using foldl_zip_sum[of rnd B 0 "T ! i"] by (simp add: l roundedSum_def)
  qed
  have "map (\<lambda>row. foldl (\<lambda>sum vi. rnd (sum + rnd (fst vi * B ! snd vi))) 0 (zip row [0..<length row])) T =
        normalVector rnd A B"
    by (rule nth_equalityI) (simp_all add: lT normalMatrix_shape rowsum, simp add: normalVector_def)
  then show "multiplyVector rnd (transposeM (Some (fst (designSystem cps)))) (Some (snd (designSystem cps))) =
           Inr (Some (normalVector rnd (fst (designSystem cps)) (snd (designSystem cps))))"
    using tr Tne T0 lA lB by (simp add: multiplyVector_def A_def[symmetric] B_def[symmetric])
qed

lemma six_elements: "length (x :: real list) = 6 \<Longrightarrow> x = [x ! 0, x ! 1, x ! 2, x ! 3, x ! 4, x ! 5]"
  by (auto simp: numeral_eq_Suc length_Suc_conv)

lemma webMercatorY_inverse:
  assumes "- 90 < la" "la < 90"
  shows "webMercatorYToLat (latToWebMercatorY la) = la"
proof -
  define th where "th = (90 + la) * pi / 360"
  have "0 < (90 + la) * pi" using assms by (intro mult_pos_pos) simp_all
  then have th0: "0 < th" by (simp add: th_def)
  have "(90 + la) * pi < 180 * pi" using assms by (intro mult_strict_right_mono) simp_all
  then have th1: "th < pi / 2" by (simp add: th_def)
  note th = th0 th1
  have t: "0 < tan th" using th by (intro tan_gt_zero) simp_all
  have a: "arctan (tan th) = th" using th by (intro arctan_tan) simp_all
  have "latToWebMercatorY la * 180 / WEB_MERCATOR_MAX * pi / 180 = ln (tan th)"
    by (simp add: latToWebMercatorY_def Let_def th_def WEB_MERCATOR_MAX_def)
  then have "webMercatorYToLat (latToWebMercatorY la) = 180 / pi * (2 * arctan (exp (ln (tan th))) - pi / 2)"
    by (simp add: webMercatorYToLat_def Let_def)
  also have "\<dots> = 180 / pi * (2 * th - pi / 2)" using t a by simp
  also have "\<dots> = la" by (simp add: th_def field_simps)
  finally show ?thesis .
qed


lemma latToWebMercatorY_30: "latToWebMercatorY 30 = 20037508.34 * ln 3 / (2 * pi)"
proof -
  have a: "(90 + 30) * pi / 360 = pi / 3" by simp
  have b: "ln (sqrt 3) = ln 3 / 2" by (simp add: ln_sqrt)
  have "latToWebMercatorY 30 = ln (tan (pi / 3)) / (pi / 180) * 20037508.34 / 180"
    unfolding latToWebMercatorY_def WEB_MERCATOR_MAX_def Let_def a ..
  also have "\<dots> = ln 3 / 2 / (pi / 180) * 20037508.34 / 180"
    unfolding tan_60 b ..
  also have "\<dots> = 20037508.34 * ln 3 / (2 * pi)" by simp
  finally show ?thesis .
qed

lemma normalMatrix_coincident:
  "normalMatrix roundToDouble
     [[0, 0, 1, 0, 0, 0], [0, 0, 0, 0, 0, 1], [0, 0, 1, 0, 0, 0], [0, 0, 0, 0, 0, 1],
      [0, 0, 1, 0, 0, 0], [0, 0, 0, 0, 0, 1]] =
   [[0, 0, 0, 0, 0, 0], [0, 0, 0, 0, 0, 0], [0, 0, 3, 0, 0, 0],
    [0, 0, 0, 0, 0, 0], [0, 0, 0, 0, 0, 0], [0, 0, 0, 0, 0, 3]]"
  by (simp add: normalMatrix_def roundedSum_def upt_conv_Cons doubleEval Let_def)

lemma gaussJordan_coincident:
  "length V = 6 \<Longrightarrow>
   gaussJordan rnd
     (Some [[0, 0, 0, 0, 0, 0], [0, 0, 0, 0, 0, 0], [0, 0, 3, 0, 0, 0],
            [0, 0, 0, 0, 0, 0], [0, 0, 0, 0, 0, 0], [0, 0, 0, 0, 0, 3]]) (Some V) = None"
  if "0 < pivotTolerance rnd"
  using that
  by (simp add: gaussJordan_def forwardElimination_round pivotAfterSwap_def selectPivot_def
        swapRows_def augmentedMatrix_def upt_conv_Cons Let_def)

lemma latToWebMercatorY_0: "latToWebMercatorY 0 = 0"
  by (simp add: latToWebMercatorY_def tan_45)

lemma designSystem_threePoints:
  "designSystem threePoints =
     ([[0, 0, 1, 0, 0, 0], [0, 0, 0, 0, 0, 1],
       [100, 0, 1, 0, 0, 0], [0, 0, 0, 100, 0, 1],
       [0, 100, 1, 0, 0, 0], [0, 0, 0, 0, 100, 1]],
      [0, 0, 2003.750834, 0, 0, 0])"
  by (simp add: designSystem_def threePoints_def controlPointAt_def fillEquations_def setEntry_def
        latToWebMercatorY_0 lonToWebMercatorX_def WEB_MERCATOR_MAX_def Let_def upt_conv_Cons
        numeral_eq_Suc)

lemma normalMatrix_threePoints:
  "normalMatrix roundToDouble [[0, 0, 1, 0, 0, 0], [0, 0, 0, 0, 0, 1],
       [100, 0, 1, 0, 0, 0], [0, 0, 0, 100, 0, 1],
       [0, 100, 1, 0, 0, 0], [0, 0, 0, 0, 100, 1]] =
   [[10000, 0, 100, 0, 0, 0], [0, 10000, 100, 0, 0, 0], [100, 100, 3, 0, 0, 0],
    [0, 0, 0, 10000, 0, 100], [0, 0, 0, 0, 10000, 100], [0, 0, 0, 100, 100, 3]]"
  by (simp add: normalMatrix_def roundedSum_def upt_conv_Cons doubleEval Let_def)

lemma normalVector_threePoints:
  "normalVector roundToDouble [[0, 0, 1, 0, 0, 0], [0, 0, 0, 0, 0, 1],
       [100, 0, 1, 0, 0, 0], [0, 0, 0, 100, 0, 1],
       [0, 100, 1, 0, 0, 0], [0, 0, 0, 0, 100, 1]] [0, 0, 2003.750834, 0, 0, 0] =
   [1721208860272545 / 8589934592, 0, 4406294682297715 / 2199023255552, 0, 0, 0]"
  by (simp add: normalVector_def roundedSum_def upt_conv_Cons doubleEval Let_def)

lemma gaussJordan_threePoints:
  "gaussJordan roundToDouble
     (Some [[10000, 0, 100, 0, 0, 0], [0, 10000, 100, 0, 0, 0], [100, 100, 3, 0, 0, 0],
            [0, 0, 0, 10000, 0, 100], [0, 0, 0, 0, 10000, 100], [0, 0, 0, 100, 100, 3]])
     (Some [1721208860272545 / 8589934592, 0, 4406294682297715 / 2199023255552, 0, 0, 0]) =
   Some [5640057193341075 / 281474976710656, 0, 0, 0, 0, 0]"
  by (simp add: solverEval pivotTolerance_double doubleEval)



section \<open>The linear solver leaves its arguments alone\<close>


lemma storeRelation_read:
  assumes "storeRelation N h0 aug n h M" "k < n"
  shows "readEntry h aug k j = M ! k ! j"
  using assms by (auto simp: storeRelation_def readEntry_def matrixAt_def rowsAt_def)

lemma storeRelation_length: "storeRelation N h0 aug n h M \<Longrightarrow> length M = n"
  by (auto simp: storeRelation_def matrixAt_def rowsAt_def)

lemma storeRelation_write:
  assumes rel: "storeRelation N h0 aug n h M" and k: "k < n"
  shows "storeRelation N h0 aug n (writeEntry h aug k j v) (M[k := (M ! k)[j := v]])"
proof -
  from rel obtain rs where aug: "N \<le> aug" "aug < length h" and fr: "\<forall>p < N. h ! p = h0 ! p"
    and rs: "h ! aug = Rows rs" "length rs = n" "distinct rs"
    and fresh: "\<forall>r \<in> set rs. N \<le> r \<and> r < length h \<and> r \<noteq> aug \<and> isNumbers (h ! r)"
    and M: "matrixAt h aug = M"
    by (auto simp: storeRelation_def)
  have ra: "rowsAt h aug = rs" by (simp add: rowsAt_def rs(1))
  have Meq: "M = map (numbersAt h) rs" using M ra by (simp add: matrixAt_def)
  have lM: "length M = n" by (simp add: Meq rs(2))
  have Mk: "M ! k' = numbersAt h (rs ! k')" if "k' < n" for k'
    using that rs(2) by (simp add: Meq)
  define r where "r = rs ! k"
  have rin: "r \<in> set rs" using k rs(2) by (simp add: r_def)
  with fresh have r: "N \<le> r" "r < length h" "r \<noteq> aug" by auto
  define h' where "h' = h[r := Numbers ((numbersAt h r)[j := v])]"
  have w: "writeEntry h aug k j v = h'"
    by (simp add: writeEntry_def h'_def r_def ra Let_def)
  have aug': "h' ! aug = Rows rs" using r rs(1) by (simp add: h'_def)
  have ra': "rowsAt h' aug = rs" by (simp add: rowsAt_def aug')
  have fr': "\<forall>p < N. h' ! p = h0 ! p" using fr r(1) by (simp add: h'_def)
  have fresh': "\<forall>q \<in> set rs. N \<le> q \<and> q < length h' \<and> q \<noteq> aug \<and> isNumbers (h' ! q)"
    using fresh r(2) by (auto simp: h'_def nth_list_update isNumbers_def)
  have "matrixAt h' aug = M[k := (M ! k)[j := v]]"
  proof (rule nth_equalityI)
    show "length (matrixAt h' aug) = length (M[k := (M ! k)[j := v]])"
      by (simp add: matrixAt_def ra' lM rs(2))
  next
    fix q assume "q < length (matrixAt h' aug)"
    then have q: "q < n" by (simp add: matrixAt_def ra' rs(2))
    have e: "matrixAt h' aug ! q = numbersAt h' (rs ! q)"
      using q rs(2) by (simp add: matrixAt_def ra')
    show "matrixAt h' aug ! q = M[k := (M ! k)[j := v]] ! q"
    proof (cases "q = k")
      case True
      then show ?thesis
        using e r(2) k lM Mk[OF k] by (simp add: h'_def numbersAt_def r_def)
    next
      case False
      then have "rs ! q \<noteq> r"
        using rs(2,3) q k by (simp add: r_def nth_eq_iff_index_eq)
      then show ?thesis
        using e False lM q Mk[OF q] by (simp add: h'_def numbersAt_def)
    qed
  qed
  then show ?thesis
    unfolding w storeRelation_def
    using aug aug' fr' fresh' rs by (auto simp: h'_def)
qed


lemma storeRelation_swap:
  assumes rel: "storeRelation N h0 aug n h M" and i: "i < n" and m: "m < n"
  shows "storeRelation N h0 aug n (swapRowsStore h aug i m) (swapRows M i m)"
proof (cases "m = i")
  case True
  then show ?thesis using rel by (simp add: swapRowsStore_def swapRows_def)
next
  case False
  from rel obtain rs where aug: "N \<le> aug" "aug < length h" and fr: "\<forall>p < N. h ! p = h0 ! p"
    and rs: "h ! aug = Rows rs" "length rs = n" "distinct rs"
    and fresh: "\<forall>r \<in> set rs. N \<le> r \<and> r < length h \<and> r \<noteq> aug \<and> isNumbers (h ! r)"
    and M: "matrixAt h aug = M"
    by (auto simp: storeRelation_def)
  have ra: "rowsAt h aug = rs" by (simp add: rowsAt_def rs(1))
  have Meq: "M = map (numbersAt h) rs" using M ra by (simp add: matrixAt_def)
  define rs' where "rs' = rs[i := rs ! m, m := rs ! i]"
  define h' where "h' = h[aug := Rows rs']"
  have w: "swapRowsStore h aug i m = h'"
    using False by (simp add: swapRowsStore_def h'_def rs'_def ra)
  have set': "set rs' = set rs"
    unfolding rs'_def using i m rs(2) by (simp add: set_swap)
  have dist': "distinct rs'"
    unfolding rs'_def using i m rs(2,3) by (simp add: distinct_swap)
  have len': "length rs' = n" by (simp add: rs'_def rs(2))
  have aug': "h' ! aug = Rows rs'" using aug(2) by (simp add: h'_def)
  have other: "h' ! r = h ! r" if "r \<in> set rs" for r
    using that fresh by (auto simp: h'_def)
  have num: "numbersAt h' r = numbersAt h r" if "r \<in> set rs" for r
    using other[OF that] by (simp add: numbersAt_def)
  have fr': "\<forall>p < N. h' ! p = h0 ! p" using fr aug(1) by (simp add: h'_def)
  have "matrixAt h' aug = map (numbersAt h) rs'"
    using num set' by (simp add: matrixAt_def rowsAt_def aug')
  also have "\<dots> = swapRows M i m"
    using False i m rs(2)
    by (simp add: swapRows_def Meq rs'_def map_update)
  finally have Mx: "matrixAt h' aug = swapRows M i m" .
  show ?thesis
    unfolding w storeRelation_def
    using aug aug' fr' fresh set' dist' len' Mx other
    by (auto simp: h'_def)
qed

lemma selectPivotStore_fold:
  assumes rel: "storeRelation N h0 aug n h M"
  shows "acc < n \<Longrightarrow> \<forall>k \<in> set ks. k < n \<Longrightarrow>
    foldl (\<lambda>maxRow k. if \<bar>readEntry h aug k i\<bar> > \<bar>readEntry h aug maxRow i\<bar> then k else maxRow) acc ks =
    foldl (\<lambda>maxRow k. if \<bar>M ! k ! i\<bar> > \<bar>M ! maxRow ! i\<bar> then k else maxRow) acc ks"
proof (induction ks arbitrary: acc)
  case Nil
  show ?case by simp
next
  case (Cons k ks)
  then have k: "k < n" by simp
  have "(if \<bar>readEntry h aug k i\<bar> > \<bar>readEntry h aug acc i\<bar> then k else acc) =
        (if \<bar>M ! k ! i\<bar> > \<bar>M ! acc ! i\<bar> then k else acc)"
    by (simp add: storeRelation_read[OF rel k] storeRelation_read[OF rel Cons.prems(1)])
  moreover have "(if \<bar>M ! k ! i\<bar> > \<bar>M ! acc ! i\<bar> then k else acc) < n"
    using k Cons.prems(1) by simp
  ultimately show ?case
    using Cons.IH[of "if \<bar>M ! k ! i\<bar> > \<bar>M ! acc ! i\<bar> then k else acc"] Cons.prems(2)
    by simp
qed

lemma selectPivotStore_eq:
  "storeRelation N h0 aug n h M \<Longrightarrow> i < n \<Longrightarrow> selectPivotStore h aug n i = selectPivot M n i"
  unfolding selectPivotStore_def selectPivot_def
  by (rule selectPivotStore_fold) auto

text \<open>A loop on the store and the same loop on the matrix stay related.\<close>

lemma foldl_related:
  assumes step: "\<And>x h M. x \<in> set xs \<Longrightarrow> storeRelation N h0 aug n h M \<Longrightarrow>
                   storeRelation N h0 aug n (f h x) (g M x)"
  shows "storeRelation N h0 aug n h M \<Longrightarrow> storeRelation N h0 aug n (foldl f h xs) (foldl g M xs)"
  using step
proof (induction xs arbitrary: h M)
  case Nil
  then show ?case by simp
next
  case (Cons x xs)
  have "storeRelation N h0 aug n (f h x) (g M x)"
    using Cons.prems(2)[of x h M] Cons.prems(1) by simp
  then show ?case
    using Cons.IH[of "f h x" "g M x"] Cons.prems(2) by simp
qed

lemma normalizeRowStore_related:
  assumes rel: "storeRelation N h0 aug n h M" and i: "i < n"
  shows "storeRelation N h0 aug n (normalizeRowStore rnd h aug n i) (normalizeRow rnd M n i)"
proof -
  have p: "readEntry h aug i i = M ! i ! i" by (rule storeRelation_read[OF rel i])
  show ?thesis
    unfolding normalizeRowStore_def normalizeRow_def Let_def p
  proof (rule foldl_related[OF _ rel])
    fix x h' M' assume r: "storeRelation N h0 aug n h' M'"
    show "storeRelation N h0 aug n (writeEntry h' aug i x (rnd (readEntry h' aug i x / (M ! i ! i))))
            (M'[i := (M' ! i)[x := rnd (M' ! i ! x / (M ! i ! i))]])"
      using storeRelation_write[OF r i, of x "rnd (M' ! i ! x / (M ! i ! i))"]
      by (simp add: storeRelation_read[OF r i])
  qed
qed

lemma eliminateColumnStore_related:
  assumes rel: "storeRelation N h0 aug n h M" and i: "i < n"
  shows "storeRelation N h0 aug n (eliminateColumnStore rnd h aug n i) (eliminateColumn rnd M n i)"
  unfolding eliminateColumnStore_def eliminateColumn_def
proof (rule foldl_related[OF _ rel])
  fix k h' M' assume k: "k \<in> set [0..<n]" and r: "storeRelation N h0 aug n h' M'"
  then have kn: "k < n" by simp
  have f: "readEntry h' aug k i = M' ! k ! i" by (rule storeRelation_read[OF r kn])
  have inner: "storeRelation N h0 aug n
      (foldl (\<lambda>h'' j. writeEntry h'' aug k j
                          (rnd (readEntry h'' aug k j - rnd ((M' ! k ! i) * readEntry h'' aug i j))))
         h' [i..<n + 1])
      (foldl (\<lambda>aug' j. aug'[k := (aug' ! k)[j := rnd (aug' ! k ! j - rnd ((M' ! k ! i) * aug' ! i ! j))]])
         M' [i..<n + 1])"
  proof (rule foldl_related[OF _ r])
    fix j h'' M'' assume r2: "storeRelation N h0 aug n h'' M''"
    show "storeRelation N h0 aug n
            (writeEntry h'' aug k j
               (rnd (readEntry h'' aug k j - rnd ((M' ! k ! i) * readEntry h'' aug i j))))
            (M''[k := (M'' ! k)[j := rnd (M'' ! k ! j - rnd ((M' ! k ! i) * M'' ! i ! j))]])"
      using storeRelation_write[OF r2 kn, of j "rnd (M'' ! k ! j - rnd ((M' ! k ! i) * M'' ! i ! j))"]
      by (simp add: storeRelation_read[OF r2 kn] storeRelation_read[OF r2 i])
  qed
  show "storeRelation N h0 aug n
          (if k \<noteq> i then
             (let factor = readEntry h' aug k i
              in foldl (\<lambda>h'' j. writeEntry h'' aug k j
                                  (rnd (readEntry h'' aug k j - rnd (factor * readEntry h'' aug i j))))
                   h' [i..<n + 1])
           else h')
          (if k \<noteq> i then
             (let factor = M' ! k ! i
              in foldl (\<lambda>aug' j.
                          aug'[k := (aug' ! k)[j := rnd (aug' ! k ! j - rnd (factor * aug' ! i ! j))]])
                   M' [i..<n + 1])
           else M')"
    using inner r by (simp add: Let_def f)
qed


lemma forwardEliminationStore_done: "\<not> i < n \<Longrightarrow> forwardEliminationStore rnd aug n i h = (True, h)"
  by (subst forwardEliminationStore.simps) simp

lemma forwardEliminationStore_round:
  "i < n \<Longrightarrow>
   forwardEliminationStore rnd aug n i h =
     (if \<bar>readEntry (swapRowsStore h aug i (selectPivotStore h aug n i)) aug i i\<bar> < pivotTolerance rnd
      then (False, swapRowsStore h aug i (selectPivotStore h aug n i))
      else forwardEliminationStore rnd aug n (i + 1)
             (eliminateColumnStore rnd
                (normalizeRowStore rnd (swapRowsStore h aug i (selectPivotStore h aug n i)) aug n i) aug n i))"
  by (subst forwardEliminationStore.simps) (simp add: Let_def)

lemma forwardEliminationStore_related:
  "storeRelation N h0 aug n h M \<Longrightarrow>
   \<exists>M'. storeRelation N h0 aug n (snd (forwardEliminationStore rnd aug n i h)) M' \<and>
        forwardElimination rnd n i M =
          (if fst (forwardEliminationStore rnd aug n i h) then Some M' else None)"
proof (induction "n - i" arbitrary: i h M)
  case 0
  then have "\<not> i < n" by simp
  then show ?case
    using 0 by (auto simp: forwardEliminationStore_done forwardElimination_done)
next
  case (Suc d)
  then have i: "i < n" by simp
  have d: "d = n - Suc i" using Suc.hyps(2) by simp
  note rel = Suc.prems
  have m: "selectPivotStore h aug n i = selectPivot M n i"
    by (rule selectPivotStore_eq[OF rel i])
  have mn: "selectPivot M n i < n" by (rule selectPivot_props(2)[OF i])
  define S where "S = swapRows M i (selectPivot M n i)"
  define hs where "hs = swapRowsStore h aug i (selectPivot M n i)"
  have relS: "storeRelation N h0 aug n hs S"
    unfolding hs_def S_def by (rule storeRelation_swap[OF rel i mn])
  have piv: "readEntry hs aug i i = pivotAfterSwap n i M"
    using storeRelation_read[OF relS i, of i] by (simp add: S_def pivotAfterSwap_def)
  show ?case
  proof (cases "\<bar>pivotAfterSwap n i M\<bar> < pivotTolerance rnd")
    case True
    then show ?thesis
      using relS i piv
      by (auto simp: forwardEliminationStore_round forwardElimination_round m hs_def[symmetric])
  next
    case False
    define hr where "hr = eliminateColumnStore rnd (normalizeRowStore rnd hs aug n i) aug n i"
    have relR: "storeRelation N h0 aug n hr (eliminationRound rnd n i M)"
      unfolding hr_def eliminationRound_def S_def[symmetric]
      by (rule eliminateColumnStore_related[OF normalizeRowStore_related[OF relS i] i])
    from Suc.hyps(1)[OF d relR]
    show ?thesis
      using False i piv
      by (simp add: forwardEliminationStore_round forwardElimination_round m hs_def[symmetric]
            hr_def[symmetric])
  qed
qed

lemma allocateAugmented_related:
  assumes a: "h ! a = Rows rs"
  shows "storeRelation (length h) h (length h) (length rs) (allocateAugmented h rs bs)
           (augmentedMatrix (matrixAt h a) bs)"
proof -
  define N where "N = length h"
  define n where "n = length rs"
  define addrs where "addrs = map (\<lambda>i. N + 1 + i) [0..<n]"
  define h1 where "h1 = allocateAugmented h rs bs"
  have h1: "h1 = h @ [Rows addrs] @ map (\<lambda>i. Numbers (numbersAt h (rs ! i) @ [bs ! i])) [0..<n]"
    by (simp add: h1_def allocateAugmented_def addrs_def N_def n_def)
  have len: "length h1 = N + 1 + n" by (simp add: h1 N_def)
  have old: "h1 ! p = h ! p" if "p < N" for p
    using that by (simp add: h1 nth_append N_def)
  have aug: "h1 ! N = Rows addrs" by (simp add: h1 nth_append N_def)
  have row: "h1 ! (N + 1 + k) = Numbers (numbersAt h (rs ! k) @ [bs ! k])" if "k < n" for k
    using that by (simp add: h1 nth_append N_def)
  have dist: "distinct addrs" by (simp add: addrs_def distinct_map inj_on_def)
  have fresh: "\<forall>r \<in> set addrs. N \<le> r \<and> r < length h1 \<and> r \<noteq> N \<and> isNumbers (h1 ! r)"
    using row by (auto simp: addrs_def len isNumbers_def)
  have M: "matrixAt h1 N = augmentedMatrix (matrixAt h a) bs"
  proof (rule nth_equalityI)
    show "length (matrixAt h1 N) = length (augmentedMatrix (matrixAt h a) bs)"
      by (simp add: matrixAt_def rowsAt_def aug a addrs_def augmentedMatrix_def n_def)
  next
    fix k assume "k < length (matrixAt h1 N)"
    then have k: "k < n" by (simp add: matrixAt_def rowsAt_def aug addrs_def)
    have "matrixAt h1 N ! k = numbersAt h1 (N + 1 + k)"
      using k by (simp add: matrixAt_def rowsAt_def aug addrs_def)
    also have "\<dots> = numbersAt h (rs ! k) @ [bs ! k]"
      using row[OF k] by (simp add: numbersAt_def)
    also have "\<dots> = augmentedMatrix (matrixAt h a) bs ! k"
      using k by (simp add: augmentedMatrix_def matrixAt_def rowsAt_def a n_def)
    finally show "matrixAt h1 N ! k = augmentedMatrix (matrixAt h a) bs ! k" .
  qed
  have "storeRelation N h N n h1 (augmentedMatrix (matrixAt h a) bs)"
    unfolding storeRelation_def
    using old aug dist fresh M len by (auto simp: addrs_def)
  then show ?thesis by (simp add: N_def n_def h1_def)
qed

lemma gaussJordanStore_related:
  assumes a: "h ! a = Rows rs" and b: "h ! b = Numbers bs"
    and rows: "list_all (\<lambda>r. isNumbers (h ! r)) rs"
  shows "(\<forall>p < length h. snd (gaussJordanStore rnd h (Some a) (Some b)) ! p = h ! p) \<and>
         length h \<le> length (snd (gaussJordanStore rnd h (Some a) (Some b))) \<and>
         (case fst (gaussJordanStore rnd h (Some a) (Some b)) of
            None \<Rightarrow> gaussJordan rnd (Some (matrixAt h a)) (Some bs) = None
          | Some r \<Rightarrow> length h \<le> r \<and>
              gaussJordan rnd (Some (matrixAt h a)) (Some bs) =
                Some (numbersAt (snd (gaussJordanStore rnd h (Some a) (Some b))) r))"
proof (cases "length rs = length bs")
  case False
  then show ?thesis
    using a b by (simp add: gaussJordanStore_def gaussJordan_def matrixAt_def rowsAt_def)
next
  case True
  define n where "n = length rs"
  define N where "N = length h"
  define res where "res = forwardEliminationStore rnd N n 0 (allocateAugmented h rs bs)"
  have lenA: "length (matrixAt h a) = n" by (simp add: matrixAt_def rowsAt_def a n_def)
  from forwardEliminationStore_related[OF allocateAugmented_related[OF a, of bs], where i = 0 and rnd = rnd]
  obtain M' where rel: "storeRelation N h N n (snd res) M'"
    and fe: "forwardElimination rnd n 0 (augmentedMatrix (matrixAt h a) bs) =
             (if fst res then Some M' else None)"
    by (auto simp: res_def N_def n_def)
  have fr: "\<forall>p < N. snd res ! p = h ! p" and lres: "N < length (snd res)"
    using rel by (auto simp: storeRelation_def)
  have gs: "gaussJordanStore rnd h (Some a) (Some b) =
            (if fst res
             then (Some (length (snd res)),
                   snd res @ [Numbers (map (\<lambda>k. readEntry (snd res) N k n) [0..<n])])
             else (None, snd res))"
    using a b rows True
    by (simp add: gaussJordanStore_def Let_def res_def N_def n_def)
  have gj: "gaussJordan rnd (Some (matrixAt h a)) (Some bs) =
            (if fst res then Some (map (\<lambda>row. row ! n) M') else None)"
    using True fe by (simp add: gaussJordan_def Let_def lenA n_def)
  have sol: "map (\<lambda>k. readEntry (snd res) N k n) [0..<n] = map (\<lambda>row. row ! n) M'"
    by (rule nth_equalityI)
       (simp_all add: storeRelation_length[OF rel] storeRelation_read[OF rel])
  show ?thesis
  proof (cases "fst res")
    case True
    then show ?thesis
      using fr lres gj sol
      by (simp add: gs N_def[symmetric] nth_append numbersAt_def)
  next
    case False
    then show ?thesis
      using fr lres gj by (simp add: gs N_def[symmetric])
  qed
qed


lemma store_prefix:
  "\<forall>p < length h. h' ! p = h ! p \<Longrightarrow> length h \<le> length h' \<Longrightarrow> take (length h) h' = h"
  by (rule nth_equalityI) simp_all

lemma gaussJordanStore_prefix:
  "take (length h) (snd (gaussJordanStore rnd h A B)) = h"
proof (cases A)
  case None
  then show ?thesis by (simp add: gaussJordanStore_def)
next
  case (Some a)
  note A = Some
  show ?thesis
  proof (cases B)
    case None
    then show ?thesis using A by (simp add: gaussJordanStore_def)
  next
    case (Some b)
    note B = Some
    show ?thesis
    proof (cases "h ! a")
      case (Numbers xs)
      then show ?thesis using A B by (simp add: gaussJordanStore_def)
    next
      case (Rows rs)
      note a = Rows
      show ?thesis
      proof (cases "h ! b")
        case (Rows qs)
        then show ?thesis using A B a by (simp add: gaussJordanStore_def)
      next
        case (Numbers bs)
        note b = Numbers
        show ?thesis
        proof (cases "list_all (\<lambda>r. isNumbers (h ! r)) rs")
          case False
          then show ?thesis using A B a b by (simp add: gaussJordanStore_def)
        next
          case True
          from gaussJordanStore_related[OF a b True]
          show ?thesis unfolding A B by (intro store_prefix) blast+
        qed
      qed
    qed
  qed
qed

lemma wellTyped_cells:
  assumes "wellTyped h a b"
  obtains rs bs where "h ! a = Rows rs" and "h ! b = Numbers bs"
    and "list_all (\<lambda>r. isNumbers (h ! r)) rs" and "\<forall>r \<in> set rs. r < length h"
    and "a < length h" and "b < length h"
proof -
  from assms obtain rs where a: "h ! a = Rows rs"
    by (cases "h ! a") (auto simp: wellTyped_def isNumbers_def)
  from assms obtain bs where b: "h ! b = Numbers bs"
    by (cases "h ! b") (auto simp: wellTyped_def isNumbers_def)
  from assms a have "list_all (\<lambda>r. isNumbers (h ! r)) rs" "\<forall>r \<in> set rs. r < length h"
    by (auto simp: wellTyped_def rowsAt_def list_all_iff)
  with a b assms show thesis by (intro that) (auto simp: wellTyped_def)
qed

lemma arguments_unchanged:
  assumes fr: "\<forall>p < length h. h' ! p = h ! p" and w: "wellTyped h a b"
  shows "matrixAt h' a = matrixAt h a \<and> numbersAt h' b = numbersAt h b"
proof -
  from w obtain rs bs where a: "h ! a = Rows rs" and b: "h ! b = Numbers bs"
    and inside: "\<forall>r \<in> set rs. r < length h" and al: "a < length h" and bl: "b < length h"
    by (rule wellTyped_cells)
  have a': "h' ! a = Rows rs" using fr al a by simp
  have b': "h' ! b = Numbers bs" using fr bl b by simp
  have "map (numbersAt h') rs = map (numbersAt h) rs"
    using fr inside by (simp add: numbersAt_def)
  then show ?thesis by (simp add: matrixAt_def rowsAt_def numbersAt_def a a' b b')
qed

lemma shared_row_system_null:
  "gaussJordan roundToDouble (Some [[3, 6], [2, 4]]) (Some [3, 6]) = None"
  by (simp add: solverEval pivotTolerance_double doubleEval)

text \<open>
  C10: \<open>gaussJordan(A, B)\<close> never changes its arguments. Whatever the arguments are, every
  array that existed before the call holds after the call what it held before: the store
  after the call begins with the store before it, so the call only adds arrays (the
  augmented matrix, its rows and the solution vector). In particular, for a matrix \<open>A\<close>
  of number rows and a vector \<open>B\<close> of numbers, the matrix and the vector read after the
  call are those read before it, both when the call returns \<open>null\<close> and when it returns a
  vector; the returned vector is a new array, and the answer is the one the solver on values
  gives for the contents of \<open>A\<close> and \<open>B\<close>. This holds also when rows of \<open>A\<close>, or \<open>B\<close>
  and a row of \<open>A\<close>, are one and the same array.
\<close>

theorem gaussJordanStore_frame:
  "take (length h) (snd (gaussJordanStore rnd h A B)) = h \<and>
   (A = Some a \<and> B = Some b \<and> wellTyped h a b \<longrightarrow>
      matrixAt (snd (gaussJordanStore rnd h A B)) a = matrixAt h a \<and>
      numbersAt (snd (gaussJordanStore rnd h A B)) b = numbersAt h b \<and>
      (case fst (gaussJordanStore rnd h A B) of
         None \<Rightarrow> gaussJordan rnd (Some (matrixAt h a)) (Some (numbersAt h b)) = None
       | Some r \<Rightarrow>
           length h \<le> r \<and>
           gaussJordan rnd (Some (matrixAt h a)) (Some (numbersAt h b)) =
             Some (numbersAt (snd (gaussJordanStore rnd h A B)) r)))"
proof (intro conjI impI)
  show "take (length h) (snd (gaussJordanStore rnd h A B)) = h"
    by (rule gaussJordanStore_prefix)
next
  assume p: "A = Some a \<and> B = Some b \<and> wellTyped h a b"
  then have A: "A = Some a" and B: "B = Some b" and w: "wellTyped h a b" by simp_all
  from w obtain rs bs where a: "h ! a = Rows rs" and b: "h ! b = Numbers bs"
    and rows: "list_all (\<lambda>r. isNumbers (h ! r)) rs"
    by (rule wellTyped_cells)
  note rel = gaussJordanStore_related[OF a b rows]
  from rel have fr: "\<forall>p < length h. snd (gaussJordanStore rnd h A B) ! p = h ! p"
    unfolding A B by blast
  from arguments_unchanged[OF fr w]
  show "matrixAt (snd (gaussJordanStore rnd h A B)) a = matrixAt h a"
    and "numbersAt (snd (gaussJordanStore rnd h A B)) b = numbersAt h b" by simp_all
  have nb: "numbersAt h b = bs" by (simp add: numbersAt_def b)
  from rel show "case fst (gaussJordanStore rnd h A B) of
         None \<Rightarrow> gaussJordan rnd (Some (matrixAt h a)) (Some (numbersAt h b)) = None
       | Some r \<Rightarrow>
           length h \<le> r \<and>
           gaussJordan rnd (Some (matrixAt h a)) (Some (numbersAt h b)) =
             Some (numbersAt (snd (gaussJordanStore rnd h A B)) r)"
    unfolding A B nb by blast
qed

theorem gaussJordanStore_frame_witness:
  "take 4 (snd (gaussJordanStore roundToDouble regularStore (Some 2) (Some 3))) = regularStore \<and>
   matrixAt (snd (gaussJordanStore roundToDouble regularStore (Some 2) (Some 3))) 2 = [[2, 1], [1, 3]] \<and>
   numbersAt (snd (gaussJordanStore roundToDouble regularStore (Some 2) (Some 3))) 3 = [3, 5] \<and>
   fst (gaussJordanStore roundToDouble regularStore (Some 2) (Some 3)) \<noteq> None \<and>
   numbersAt (snd (gaussJordanStore roundToDouble regularStore (Some 2) (Some 3)))
     (the (fst (gaussJordanStore roundToDouble regularStore (Some 2) (Some 3)))) = [3602879701896397 / 4503599627370496, 3152519739159347 / 2251799813685248] \<and>
   take 5 (snd (gaussJordanStore roundToDouble exampleStore (Some 4) (Some 3))) = exampleStore \<and>
   matrixAt (snd (gaussJordanStore roundToDouble exampleStore (Some 4) (Some 3))) 4 = [[3, 6], [2, 4]] \<and>
   numbersAt (snd (gaussJordanStore roundToDouble exampleStore (Some 4) (Some 3))) 3 = [3, 6] \<and>
   fst (gaussJordanStore roundToDouble exampleStore (Some 4) (Some 3)) = None"
proof -
  note r = gaussJordanStore_frame [of regularStore roundToDouble "Some 2" "Some 3" 2 3]
  note e = gaussJordanStore_frame [of exampleStore roundToDouble "Some 4" "Some 3" 4 3]
  have wr: "wellTyped regularStore 2 3"
    by (simp add: wellTyped_def regularStore_def isNumbers_def rowsAt_def)
  have we: "wellTyped exampleStore 4 3"
    by (simp add: wellTyped_def exampleStore_def isNumbers_def rowsAt_def)
  have mr: "matrixAt regularStore 2 = [[2, 1], [1, 3]]" "numbersAt regularStore 3 = [3, 5]"
    by (simp_all add: matrixAt_def rowsAt_def numbersAt_def regularStore_def)
  have me: "matrixAt exampleStore 4 = [[3, 6], [2, 4]]" "numbersAt exampleStore 3 = [3, 6]"
    by (simp_all add: matrixAt_def rowsAt_def numbersAt_def exampleStore_def)
  have lr: "length regularStore = 4" and le: "length exampleStore = 5"
    by (simp_all add: regularStore_def exampleStore_def)
  from r wr have r1: "take 4 (snd (gaussJordanStore roundToDouble regularStore (Some 2) (Some 3))) = regularStore"
    and r2: "matrixAt (snd (gaussJordanStore roundToDouble regularStore (Some 2) (Some 3))) 2 = [[2, 1], [1, 3]]"
    and r3: "numbersAt (snd (gaussJordanStore roundToDouble regularStore (Some 2) (Some 3))) 3 = [3, 5]"
    and r4: "case fst (gaussJordanStore roundToDouble regularStore (Some 2) (Some 3)) of
               None \<Rightarrow> False
             | Some r \<Rightarrow>
                 [3602879701896397 / 4503599627370496, 3152519739159347 / 2251799813685248] = numbersAt (snd (gaussJordanStore roundToDouble regularStore (Some 2) (Some 3))) r"
    by (simp_all add: mr lr gaussJordan_double_regular split: option.splits)
  from e we have e1: "take 5 (snd (gaussJordanStore roundToDouble exampleStore (Some 4) (Some 3))) = exampleStore"
    and e2: "matrixAt (snd (gaussJordanStore roundToDouble exampleStore (Some 4) (Some 3))) 4 = [[3, 6], [2, 4]]"
    and e3: "numbersAt (snd (gaussJordanStore roundToDouble exampleStore (Some 4) (Some 3))) 3 = [3, 6]"
    and e4: "fst (gaussJordanStore roundToDouble exampleStore (Some 4) (Some 3)) = None"
    by (simp_all add: me le shared_row_system_null split: option.splits)
  from r4 have r5: "fst (gaussJordanStore roundToDouble regularStore (Some 2) (Some 3)) \<noteq> None"
    and r6: "numbersAt (snd (gaussJordanStore roundToDouble regularStore (Some 2) (Some 3)))
     (the (fst (gaussJordanStore roundToDouble regularStore (Some 2) (Some 3)))) = [3602879701896397 / 4503599627370496, 3152519739159347 / 2251799813685248]"
    by (auto split: option.splits)
  from r1 r2 r3 r5 r6 e1 e2 e3 e4 show ?thesis by blast
qed


end
